theory Spec2Isabelle
  imports Complex_Main
begin

section \<open>Python values and exceptions\<close>

text \<open>
  The scraper handles decoded JSON as dynamically typed Python values. A JSON object is
  a dict with string keys, kept as an association list that is read with \<open>map_of\<close>.
  Python floats are modelled by exact rationals: the code only multiplies delays by
  \<open>2\<close> and \<open>1.5\<close> and compares them with \<open>0\<close> and \<open>10\<close>.
\<close>

datatype pyval =
    PNone
  | PBool bool
  | PInt int
  | PFloat rat
  | PStr string
  | PList "pyval list"
  | PDict "(string \<times> pyval) list"

text \<open>
  The exception classes the code distinguishes. \<open>Timeout\<close>, \<open>ConnectionError\<close>,
  \<open>HTTPError\<close> and \<open>InvalidJSONError\<close> are subclasses of
  \<open>requests.exceptions.RequestException\<close>; the others are ordinary subclasses of
  \<open>Exception\<close>.
\<close>

datatype exc =
    Timeout
  | ConnectionError
  | HTTPError
  | InvalidJSONError
  | ValueError
  | TypeError
  | KeyError
  | AttributeError
  | OverflowError
  | InterfaceError

fun is_request_exception :: "exc \<Rightarrow> bool" where
  "is_request_exception Timeout = True"
| "is_request_exception ConnectionError = True"
| "is_request_exception HTTPError = True"
| "is_request_exception InvalidJSONError = True"
| "is_request_exception _ = False"

text \<open>Truth value of a Python object, as \<open>if x:\<close> and \<open>if not x:\<close> test it.\<close>

fun truthy :: "pyval \<Rightarrow> bool" where
  "truthy PNone = False"
| "truthy (PBool b) = b"
| "truthy (PInt i) = (i \<noteq> 0)"
| "truthy (PFloat r) = (r \<noteq> 0)"
| "truthy (PStr s) = (s \<noteq> [])"
| "truthy (PList xs) = (xs \<noteq> [])"
| "truthy (PDict kvs) = (kvs \<noteq> [])"

text \<open>\<open>k in s\<close> on two strings is the substring test.\<close>

fun is_substring :: "string \<Rightarrow> string \<Rightarrow> bool" where
  "is_substring k [] = (k = [])"
| "is_substring k (c # s) = (take (length k) (c # s) = k \<or> is_substring k s)"

text \<open>
  \<open>key in x\<close> for a string key: key membership on a dict, element membership on a
  list, substring on a string, \<open>TypeError\<close> on anything else.
\<close>

fun py_in :: "string \<Rightarrow> pyval \<Rightarrow> exc + bool" where
  "py_in k (PDict kvs) = Inr (k \<in> set (map fst kvs))"
| "py_in k (PList xs) = Inr (PStr k \<in> set xs)"
| "py_in k (PStr s) = Inr (is_substring k s)"
| "py_in k _ = Inl TypeError"

text \<open>
  \<open>x[key]\<close> for a string key: the value on a dict (\<open>KeyError\<close> when the key is
  missing), \<open>TypeError\<close> on anything else.
\<close>

fun py_subscript :: "pyval \<Rightarrow> string \<Rightarrow> exc + pyval" where
  "py_subscript (PDict kvs) k = (case map_of kvs k of None \<Rightarrow> Inl KeyError | Some v \<Rightarrow> Inr v)"
| "py_subscript _ k = Inl TypeError"

text \<open>
  \<open>x.get(key)\<close> and \<open>x.get(key, default)\<close>: only a dict has the method; a present
  key gives its value (also when that value is \<open>None\<close>).
\<close>

fun py_get_default :: "pyval \<Rightarrow> string \<Rightarrow> pyval \<Rightarrow> exc + pyval" where
  "py_get_default (PDict kvs) k dflt = (case map_of kvs k of None \<Rightarrow> Inr dflt | Some v \<Rightarrow> Inr v)"
| "py_get_default _ k dflt = Inl AttributeError"

definition py_get :: "pyval \<Rightarrow> string \<Rightarrow> exc + pyval" where
  "py_get x k = py_get_default x k PNone"

text \<open>\<open>for x in v\<close>: the elements of a list, the keys of a dict, the characters of a string.\<close>

fun py_iter :: "pyval \<Rightarrow> exc + pyval list" where
  "py_iter (PList xs) = Inr xs"
| "py_iter (PDict kvs) = Inr (map (\<lambda>kv. PStr (fst kv)) kvs)"
| "py_iter (PStr s) = Inr (map (\<lambda>c. PStr [c]) s)"
| "py_iter _ = Inl TypeError"

section \<open>Transport: one HTTP GET and its outcomes\<close>

text \<open>
  A call of \<open>session.get\<close> either raises or returns a response; \<open>response.json()\<close>
  either raises (the body is not JSON) or gives the decoded value. The class of the
  decoding error depends on the installed library, so the response carries it.
\<close>

datatype response = Response (status_code: int) (json: "exc + pyval")

datatype outcome = Raises exc | Returns response

datatype request =
    MappingReq string
  | DetailReq pyval int int

datatype event = Sleep rat | Get request

definition raise_for_status :: "response \<Rightarrow> exc + unit" where
  "raise_for_status r =
     (if 400 \<le> status_code r \<and> status_code r < 600 then Inl HTTPError else Inr ())"

text \<open>\<open>time.sleep\<close> rejects a negative duration with \<open>ValueError\<close>.\<close>

definition time_sleep :: "rat \<Rightarrow> event list \<Rightarrow> exc + event list" where
  "time_sleep d evs = (if d < 0 then Inl ValueError else Inr (evs @ [Sleep d]))"

section \<open>The retry loop of the two lookups (scraper.py)\<close>

text \<open>
  \<open>get_store_ids_by_domain\<close> and \<open>get_store_details\<close> have the same body up to the
  request they send, the response key they read and the value they return on a miss
  (\<open>[]\<close> and \<open>None\<close>). The body of the \<open>try\<close> is \<open>try_body\<close>, the three
  \<open>except\<close> clauses are \<open>handler\<close>, and \<open>for attempt in range(max_retries)\<close> is
  \<open>retry_loop\<close> over the list of attempt numbers. Each attempt reports the events
  (sleeps and the GET) it performed.
\<close>

datatype signal = Return pyval | Continue rat | Break

definition max_retries :: nat where
  "max_retries = 3"

text \<open>
  The two membership tests and the double subscript:
  \<open>if "data" in data and key in data["data"]: return data["data"][key]\<close>, else the
  miss value.
\<close>

definition extract_path :: "string \<Rightarrow> pyval \<Rightarrow> pyval \<Rightarrow> exc + pyval" where
  "extract_path key miss data =
     (case py_in ''data'' data of
        Inl e \<Rightarrow> Inl e
      | Inr False \<Rightarrow> Inr miss
      | Inr True \<Rightarrow>
          (case py_subscript data ''data'' of
             Inl e \<Rightarrow> Inl e
           | Inr inner \<Rightarrow>
               (case py_in key inner of
                  Inl e \<Rightarrow> Inl e
                | Inr False \<Rightarrow> Inr miss
                | Inr True \<Rightarrow> py_subscript inner key)))"

text \<open>
  The body of the \<open>try\<close>: sleep the current delay, send the request, on status 429
  double the delay, sleep it and \<open>continue\<close>; otherwise \<open>raise_for_status\<close>, decode and
  return. The result is the events performed and either the exception raised or the
  control signal.
\<close>

definition try_body ::
  "request \<Rightarrow> string \<Rightarrow> pyval \<Rightarrow> rat \<Rightarrow> outcome \<Rightarrow> event list \<times> (exc + signal)" where
  "try_body req key miss retry_delay out =
     (case time_sleep retry_delay [] of
        Inl e \<Rightarrow> ([], Inl e)
      | Inr evs0 \<Rightarrow>
          (let evs = evs0 @ [Get req] in
           case out of
             Raises e \<Rightarrow> (evs, Inl e)
           | Returns r \<Rightarrow>
               if status_code r = 429 then
                 (let retry_delay2 = retry_delay * 2 in
                  case time_sleep retry_delay2 evs of
                    Inl e \<Rightarrow> (evs, Inl e)
                  | Inr evs2 \<Rightarrow> (evs2, Inr (Continue retry_delay2)))
               else
                 (case raise_for_status r of
                    Inl e \<Rightarrow> (evs, Inl e)
                  | Inr u \<Rightarrow>
                      (case json r of
                         Inl e \<Rightarrow> (evs, Inl e)
                       | Inr data \<Rightarrow>
                           (case extract_path key miss data of
                              Inl e \<Rightarrow> (evs, Inl e)
                            | Inr v \<Rightarrow> (evs, Inr (Return v)))))))"

text \<open>
  The \<open>except\<close> clauses, in the source's order: \<open>Timeout\<close>, then any other
  \<open>RequestException\<close> (both multiply the delay by 1.5 and sleep it unless this was the
  last attempt), then any other \<open>Exception\<close> (\<open>break\<close>). A sleep inside a handler is
  outside the \<open>try\<close>, so an exception it raises leaves the function: that is \<open>Inl\<close>.
\<close>

definition handler ::
  "nat \<Rightarrow> rat \<Rightarrow> exc \<Rightarrow> event list \<Rightarrow> exc + (event list \<times> signal)" where
  "handler attempt retry_delay e evs =
     (if e = Timeout then
        (let retry_delay2 = retry_delay * (3 / 2) in
         if attempt < max_retries - 1 then
           (case time_sleep retry_delay2 evs of
              Inl e2 \<Rightarrow> Inl e2
            | Inr evs2 \<Rightarrow> Inr (evs2, Continue retry_delay2))
         else Inr (evs, Continue retry_delay2))
      else if is_request_exception e then
        (let retry_delay2 = retry_delay * (3 / 2) in
         if attempt < max_retries - 1 then
           (case time_sleep retry_delay2 evs of
              Inl e2 \<Rightarrow> Inl e2
            | Inr evs2 \<Rightarrow> Inr (evs2, Continue retry_delay2))
         else Inr (evs, Continue retry_delay2))
      else Inr (evs, Break))"

text \<open>
  One iteration of the loop: the \<open>try\<close> body followed by the handler when it raised.
\<close>

definition attempt_step ::
  "request \<Rightarrow> string \<Rightarrow> pyval \<Rightarrow> nat \<Rightarrow> rat \<Rightarrow> outcome \<Rightarrow> exc + (event list \<times> signal)" where
  "attempt_step req key miss attempt retry_delay out =
     (case try_body req key miss retry_delay out of
        (evs, Inr s) \<Rightarrow> Inr (evs, s)
      | (evs, Inl e) \<Rightarrow> handler attempt retry_delay e evs)"

text \<open>
  The loop over \<open>range(max_retries)\<close>. \<open>net attempt\<close> is the outcome of the GET sent in
  that attempt. Falling off the loop and \<open>break\<close> both reach the final
  \<open>return []\<close> / \<open>return None\<close>. The second component lists the events of each attempt.
\<close>

fun retry_loop ::
  "request \<Rightarrow> string \<Rightarrow> pyval \<Rightarrow> (nat \<Rightarrow> outcome) \<Rightarrow> nat list \<Rightarrow> rat \<Rightarrow> event list list
     \<Rightarrow> exc + (pyval \<times> event list list)" where
  "retry_loop req key miss net [] retry_delay done = Inr (miss, done)"
| "retry_loop req key miss net (attempt # rest) retry_delay done =
     (case attempt_step req key miss attempt retry_delay (net attempt) of
        Inl e \<Rightarrow> Inl e
      | Inr (evs, Return v) \<Rightarrow> Inr (v, done @ [evs])
      | Inr (evs, Continue retry_delay2) \<Rightarrow>
          retry_loop req key miss net rest retry_delay2 (done @ [evs])
      | Inr (evs, Break) \<Rightarrow> Inr (miss, done @ [evs]))"

definition get_store_ids_by_domain ::
  "rat \<Rightarrow> (nat \<Rightarrow> outcome) \<Rightarrow> string \<Rightarrow> exc + (pyval \<times> event list list)" where
  "get_store_ids_by_domain self_delay net domain =
     retry_loop (MappingReq domain) ''getPartialURLsByDomain'' (PList []) net
       [0 ..< max_retries] self_delay []"

definition get_store_details ::
  "rat \<Rightarrow> (nat \<Rightarrow> outcome) \<Rightarrow> pyval \<Rightarrow> int \<Rightarrow> int \<Rightarrow> exc + (pyval \<times> event list list)" where
  "get_store_details self_delay net store_id max_ugc success_count =
     retry_loop (DetailReq store_id max_ugc success_count) ''getStoreById'' PNone net
       [0 ..< max_retries] self_delay []"

section \<open>Specification vocabulary for the lookups\<close>

text \<open>
  The response path of the specification: the value under \<open>data.<key>\<close> of a decoded
  body, when the body is an object whose \<open>data\<close> member is an object with that key.
\<close>

definition response_path :: "string \<Rightarrow> pyval \<Rightarrow> pyval option" where
  "response_path key data =
     (case data of
        PDict kvs \<Rightarrow>
          (case map_of kvs ''data'' of
             Some (PDict kvs2) \<Rightarrow> map_of kvs2 key
           | _ \<Rightarrow> None)
      | _ \<Rightarrow> None)"

text \<open>
  What an outcome delivers: the value at the response path of a response that is neither
  rate limited (429) nor an HTTP error (4xx, 5xx) and whose body decodes.
\<close>

definition delivered :: "string \<Rightarrow> outcome \<Rightarrow> pyval option" where
  "delivered key out =
     (case out of
        Raises e \<Rightarrow> None
      | Returns r \<Rightarrow>
          if status_code r = 429 \<or> (400 \<le> status_code r \<and> status_code r < 600) then None
          else (case json r of Inl e \<Rightarrow> None | Inr data \<Rightarrow> response_path key data))"

text \<open>
  Accounting over the events of a lookup: the time slept in one attempt, the running
  total after each attempt, the list of all sleeps and the number of GETs sent.
\<close>

fun sleep_of :: "event \<Rightarrow> rat" where
  "sleep_of (Sleep d) = d"
| "sleep_of (Get r) = 0"

definition attempt_sleep :: "event list \<Rightarrow> rat" where
  "attempt_sleep evs = sum_list (map sleep_of evs)"

fun running_totals :: "rat \<Rightarrow> rat list \<Rightarrow> rat list" where
  "running_totals acc [] = []"
| "running_totals acc (x # xs) = (acc + x) # running_totals (acc + x) xs"

definition cumulative_sleep :: "event list list \<Rightarrow> rat list" where
  "cumulative_sleep attempts = running_totals 0 (map attempt_sleep attempts)"

fun is_get :: "event \<Rightarrow> bool" where
  "is_get (Get r) = True"
| "is_get (Sleep d) = False"

definition gets :: "event list list \<Rightarrow> nat" where
  "gets attempts = length (filter is_get (concat attempts))"

text \<open>An attempt is rate limited when the response has status 429.\<close>

definition rate_limited :: "outcome \<Rightarrow> bool" where
  "rate_limited out = (case out of Raises e \<Rightarrow> False | Returns r \<Rightarrow> status_code r = 429)"

text \<open>
  The events of attempt \<open>a\<close> when it and all attempts before it were rate limited:
  the pacing sleep of \<open>delay * 2 ^ a\<close>, the GET, and the sleep of the doubled delay.
  \<open>final_attempt\<close> is an attempt that returns after its GET, and \<open>backoff_trace\<close>
  the attempts of a lookup that meets \<open>N\<close> rate-limited responses and then a good one.
\<close>

definition limited_attempt :: "request \<Rightarrow> rat \<Rightarrow> nat \<Rightarrow> event list" where
  "limited_attempt req delay a = [Sleep (delay * 2 ^ a), Get req, Sleep (delay * 2 ^ (a + 1))]"

definition final_attempt :: "request \<Rightarrow> rat \<Rightarrow> nat \<Rightarrow> event list" where
  "final_attempt req delay a = [Sleep (delay * 2 ^ a), Get req]"

definition backoff_trace :: "request \<Rightarrow> rat \<Rightarrow> nat \<Rightarrow> event list list" where
  "backoff_trace req delay N =
     map (limited_attempt req delay) [0 ..< min N max_retries]
     @ (if N < max_retries then [final_attempt req delay N] else [])"

text \<open>Sample transports: a good response, and two 429 responses before it.\<close>

definition ok_body :: "string \<Rightarrow> pyval \<Rightarrow> outcome" where
  "ok_body key v = Returns (Response 200 (Inr (PDict [(''data'', PDict [(key, v)])])))"

definition two_429_then_ok :: "string \<Rightarrow> pyval \<Rightarrow> nat \<Rightarrow> outcome" where
  "two_429_then_ok key v a = (if a < 2 then Returns (Response 429 (Inl ValueError)) else ok_body key v)"

text \<open>
  A well-formed miss: a 2xx response whose body decodes but has no value at the
  response path.
\<close>

definition well_formed_miss :: "string \<Rightarrow> outcome \<Rightarrow> bool" where
  "well_formed_miss key out =
     (case out of
        Raises e \<Rightarrow> False
      | Returns r \<Rightarrow>
          200 \<le> status_code r \<and> status_code r < 300
          \<and> (case json r of Inl e \<Rightarrow> False | Inr data \<Rightarrow> response_path key data = None))"

text \<open>
  The outcomes after which the loop goes on to the next attempt: status 429, a
  \<open>RequestException\<close> raised by the GET, an HTTP error status, or a body whose
  decoding raises a \<open>RequestException\<close>.
\<close>

definition retried :: "outcome \<Rightarrow> bool" where
  "retried out =
     (case out of
        Raises e \<Rightarrow> is_request_exception e
      | Returns r \<Rightarrow>
          status_code r = 429 \<or> (400 \<le> status_code r \<and> status_code r < 600)
          \<or> (case json r of Inl e \<Rightarrow> is_request_exception e | Inr data \<Rightarrow> False))"

text \<open>All the sleeps of a lookup, in order.\<close>

definition sleeps :: "event list list \<Rightarrow> rat list" where
  "sleeps attempts = map sleep_of (filter (\<lambda>e. \<not> is_get e) (concat attempts))"

text \<open>A trace is quiet when every sleep in it lasts 0.\<close>

definition quiet :: "event list \<Rightarrow> bool" where
  "quiet evs = (set (sleeps [evs]) \<subseteq> {0})"

text \<open>A 2xx response with the body \<open>{}\<close>.\<close>

definition empty_object :: outcome where
  "empty_object = Returns (Response 200 (Inr (PDict [])))"

section \<open>The SQLite store (scraper.py)\<close>

text \<open>
  Values as SQLite stores them. \<open>json.dumps(v)\<close> is a string; its text is not
  modelled, \<open>SJson v\<close> stands for it. A statement parameter is either a Python value
  to bind or such a dumped value. Binding accepts \<open>None\<close>, booleans, 64-bit integers,
  floats and strings and raises on lists and dicts.
\<close>

datatype sqlval = SNull | SInt int | SReal rat | SText string | SJson pyval

datatype param = Val pyval | Dumped pyval

fun sql_bind :: "param \<Rightarrow> exc + sqlval" where
  "sql_bind (Dumped v) = Inr (SJson v)"
| "sql_bind (Val PNone) = Inr SNull"
| "sql_bind (Val (PBool b)) = Inr (SInt (if b then 1 else 0))"
| "sql_bind (Val (PInt i)) =
     (if - (2 ^ 63) \<le> i \<and> i < 2 ^ 63 then Inr (SInt i) else Inl OverflowError)"
| "sql_bind (Val (PFloat r)) = Inr (SReal r)"
| "sql_bind (Val (PStr s)) = Inr (SText s)"
| "sql_bind (Val (PList xs)) = Inl InterfaceError"
| "sql_bind (Val (PDict kvs)) = Inl InterfaceError"

text \<open>Evaluating a list of fallible items in order, stopping at the first exception.\<close>

fun collect :: "('a \<Rightarrow> exc + 'b) \<Rightarrow> 'a list \<Rightarrow> exc + 'b list" where
  "collect f [] = Inr []"
| "collect f (x # xs) =
     (case f x of
        Inl e \<Rightarrow> Inl e
      | Inr y \<Rightarrow> (case collect f xs of Inl e \<Rightarrow> Inl e | Inr ys \<Rightarrow> Inr (y # ys)))"

text \<open>
  A row is its \<open>store_id\<close> column and its other columns, in the order of the
  \<open>INSERT\<close> statement. The \<open>AUTOINCREMENT\<close> ids of \<open>coupons\<close> and \<open>partial_urls\<close>
  and the wall-clock column \<open>scraped_at\<close> are not modelled; a table is the list of its
  rows in insertion order. The API's store identifiers are strings: the conversions
  that SQLite's column affinity applies to numeric keys are not modelled, but a
  \<open>NULL\<close> key never equals anything, as in SQL.
\<close>

type_synonym row = "sqlval \<times> sqlval list"

record db =
  stores :: "row list"
  coupons :: "row list"
  partial_urls :: "row list"
  scraped_domains :: "(string \<times> nat) list"

definition key_matches :: "sqlval \<Rightarrow> row \<Rightarrow> bool" where
  "key_matches k r = (k \<noteq> SNull \<and> fst r = k)"

text \<open>\<open>INSERT OR REPLACE\<close> on the primary key, \<open>DELETE ... WHERE store_id = ?\<close>.\<close>

definition insert_or_replace :: "sqlval \<Rightarrow> sqlval list \<Rightarrow> row list \<Rightarrow> row list" where
  "insert_or_replace k cols tbl = filter (\<lambda>r. \<not> key_matches k r) tbl @ [(k, cols)]"

definition delete_where :: "sqlval \<Rightarrow> row list \<Rightarrow> row list" where
  "delete_where k tbl = filter (\<lambda>r. \<not> key_matches k r) tbl"

text \<open>\<open>_store_exists\<close>, \<open>_domain_scraped\<close> and \<open>_mark_domain_scraped\<close>.\<close>

definition store_exists :: "db \<Rightarrow> pyval \<Rightarrow> exc + bool" where
  "store_exists d store_id =
     (case sql_bind (Val store_id) of
        Inl e \<Rightarrow> Inl e
      | Inr k \<Rightarrow> Inr (list_ex (key_matches k) (stores d)))"

definition domain_scraped :: "db \<Rightarrow> string \<Rightarrow> bool" where
  "domain_scraped d domain = (map_of (scraped_domains d) domain \<noteq> None)"

definition mark_domain_scraped :: "db \<Rightarrow> string \<Rightarrow> nat \<Rightarrow> db" where
  "mark_domain_scraped d domain store_count =
     d\<lparr>scraped_domains :=
         filter (\<lambda>r. fst r \<noteq> domain) (scraped_domains d) @ [(domain, store_count)]\<rparr>"

text \<open>
  The columns of the three \<open>INSERT\<close> statements after \<open>store_id\<close> (and, for a store,
  after \<open>domain\<close> and \<open>partial_url\<close>): \<open>Plain k\<close> is \<open>obj.get(k)\<close>, \<open>Flag k\<close> is
  \<open>1 if obj.get(k) else 0\<close>, \<open>Dumps k d\<close> is \<open>json.dumps(obj.get(k, d))\<close> and
  \<open>DumpsSelf\<close> is \<open>json.dumps(obj)\<close>.
\<close>

datatype column = Plain string | Flag string | Dumps string pyval | DumpsSelf

fun column_param :: "pyval \<Rightarrow> column \<Rightarrow> exc + param" where
  "column_param obj (Plain k) =
     (case py_get obj k of Inl e \<Rightarrow> Inl e | Inr v \<Rightarrow> Inr (Val v))"
| "column_param obj (Flag k) =
     (case py_get obj k of
        Inl e \<Rightarrow> Inl e
      | Inr v \<Rightarrow> Inr (Val (PInt (if truthy v then 1 else 0))))"
| "column_param obj (Dumps k dflt) =
     (case py_get_default obj k dflt of Inl e \<Rightarrow> Inl e | Inr v \<Rightarrow> Inr (Dumped v))"
| "column_param obj DumpsSelf = Inr (Dumped obj)"

definition store_columns :: "column list" where
  "store_columns =
     [Plain ''name'', Plain ''label'', Plain ''country'', Plain ''url'', Plain ''logoUrl'',
      Flag ''active'', Flag ''supported'', Plain ''supportStage'',
      Plain ''created'', Plain ''updated'', Plain ''checked'', Plain ''score'',
      Plain ''shoppers24h'', Plain ''shoppers30d'', Plain ''shoppersChange'',
      Plain ''numSavings24h'', Plain ''numSavings30d'',
      Plain ''avgSavings24h'', Plain ''avgSavings30d'', Plain ''metadata'',
      Plain ''affiliateURL'', Plain ''affiliateRestrictions'', Flag ''ugcAllowed'',
      Plain ''freeShippingThreshold'', Flag ''forceJsRedirect'', Plain ''launchpadPathname'',
      DumpsSelf]"

definition coupon_columns :: "column list" where
  "coupon_columns =
     [Plain ''code'', Plain ''dealId'', Plain ''description'', Plain ''created'',
      Plain ''expires'', Flag ''exclusive'', Flag ''hidden'', Plain ''restrictions'',
      Plain ''rank'', Plain ''applied_acc_count'', Plain ''applied_acc_last_ts'',
      Plain ''applied_acc_last_discount'', Plain ''url'',
      Dumps ''meta'' (PDict []), Dumps ''sources'' (PList []), Dumps ''tags'' (PList [])]"

definition partial_url_columns :: "column list" where
  "partial_url_columns = [Plain ''domain'', Plain ''partialURL'']"

text \<open>
  The parameter tuple of one \<open>INSERT\<close> is evaluated first (a \<open>.get\<close> on a value that
  is not a dict raises there), then bound.
\<close>

definition row_of :: "pyval \<Rightarrow> param list \<Rightarrow> pyval \<Rightarrow> column list \<Rightarrow> exc + row" where
  "row_of store_id leading obj cols =
     (case collect (column_param obj) cols of
        Inl e \<Rightarrow> Inl e
      | Inr ps \<Rightarrow>
          (case sql_bind (Val store_id) of
             Inl e \<Rightarrow> Inl e
           | Inr k \<Rightarrow>
               (case collect sql_bind (leading @ ps) of
                  Inl e \<Rightarrow> Inl e
                | Inr vs \<Rightarrow> Inr (k, vs))))"

text \<open>
  The two \<open>for\<close> loops that insert the child rows. An exception leaves the rows
  inserted so far in the open transaction.
\<close>

fun insert_children ::
  "pyval \<Rightarrow> column list \<Rightarrow> pyval list \<Rightarrow> row list \<Rightarrow> (exc \<times> row list) + row list" where
  "insert_children store_id cols [] tbl = Inr tbl"
| "insert_children store_id cols (c # cs) tbl =
     (case row_of store_id [] c cols of
        Inl e \<Rightarrow> Inl (e, tbl)
      | Inr r \<Rightarrow> insert_children store_id cols cs (tbl @ [r]))"

text \<open>
  The body of the \<open>try\<close> in \<open>_save_store_to_db\<close> up to \<open>conn.commit()\<close>: the store
  upsert, then delete-and-insert of the coupons, then of the partial URLs, all in the
  transaction that the first statement opens. The result is the committed database, or
  the exception together with the uncommitted state at the point of the raise.
\<close>

definition save_transaction ::
  "db \<Rightarrow> string \<Rightarrow> pyval \<Rightarrow> pyval \<Rightarrow> pyval \<Rightarrow> (exc \<times> db) + db" where
  "save_transaction d domain store_id partial_url details =
     (case row_of store_id [Val (PStr domain), Val partial_url] details store_columns of
        Inl e \<Rightarrow> Inl (e, d)
      | Inr (k, vs) \<Rightarrow>
          (let d1 = d\<lparr>stores := insert_or_replace k vs (stores d)\<rparr>;
               d2 = d1\<lparr>coupons := delete_where k (coupons d1)\<rparr>
           in case py_get_default details ''publicCoupons'' (PList []) of
                Inl e \<Rightarrow> Inl (e, d2)
              | Inr cv \<Rightarrow>
                  (case py_iter cv of
                     Inl e \<Rightarrow> Inl (e, d2)
                   | Inr cs \<Rightarrow>
                       (case insert_children store_id coupon_columns cs (coupons d2) of
                          Inl (e, t) \<Rightarrow> Inl (e, d2\<lparr>coupons := t\<rparr>)
                        | Inr t \<Rightarrow>
                            (let d3 = d2\<lparr>coupons := t\<rparr>;
                                 d4 = d3\<lparr>partial_urls := delete_where k (partial_urls d3)\<rparr>
                             in case py_get_default details ''partialUrls'' (PList []) of
                                  Inl e \<Rightarrow> Inl (e, d4)
                                | Inr pv \<Rightarrow>
                                    (case py_iter pv of
                                       Inl e \<Rightarrow> Inl (e, d4)
                                     | Inr pus \<Rightarrow>
                                         (case insert_children store_id partial_url_columns pus
                                                 (partial_urls d4) of
                                            Inl (e, t2) \<Rightarrow> Inl (e, d4\<lparr>partial_urls := t2\<rparr>)
                                          | Inr t2 \<Rightarrow> Inr (d4\<lparr>partial_urls := t2\<rparr>))))))))"

text \<open>
  \<open>_save_store_to_db\<close>: commit, or on any exception \<open>conn.rollback()\<close> (the database
  is as before the call) and \<open>logger.error\<close>. The second component is the exception
  that was logged, if any; nothing is raised and nothing is returned to the caller.
\<close>

definition save_store_to_db ::
  "db \<Rightarrow> string \<Rightarrow> pyval \<Rightarrow> pyval \<Rightarrow> pyval \<Rightarrow> db \<times> exc option" where
  "save_store_to_db d domain store_id partial_url details =
     (case save_transaction d domain store_id partial_url details of
        Inl (e, uncommitted) \<Rightarrow> (d, Some e)
      | Inr d2 \<Rightarrow> (d2, None))"

section \<open>Specification vocabulary for the store\<close>

text \<open>
  The child rows a payload asks for: the rows of the records under \<open>publicCoupons\<close>
  or \<open>partialUrls\<close> (no rows when the key is absent), in the payload's order.
\<close>

definition payload_rows :: "pyval \<Rightarrow> string \<Rightarrow> column list \<Rightarrow> pyval \<Rightarrow> exc + row list" where
  "payload_rows store_id key cols details =
     (case py_get_default details key (PList []) of
        Inl e \<Rightarrow> Inl e
      | Inr v \<Rightarrow>
          (case py_iter v of
             Inl e \<Rightarrow> Inl e
           | Inr cs \<Rightarrow> collect (\<lambda>c. row_of store_id [] c cols) cs))"

text \<open>The rows of a table that belong to a store, and the rows of all other stores.\<close>

definition rows_of_store :: "sqlval \<Rightarrow> row list \<Rightarrow> row list" where
  "rows_of_store k tbl = filter (key_matches k) tbl"

definition other_rows :: "sqlval \<Rightarrow> row list \<Rightarrow> row list" where
  "other_rows k tbl = filter (\<lambda>r. \<not> key_matches k r) tbl"

text \<open>
  Sample data: an empty database, two payloads for the same store, a payload whose
  \<open>publicCoupons\<close> is \<open>null\<close>, and the databases after saving the first payload and
  then the second.
\<close>

definition empty_db :: db where
  "empty_db = \<lparr>stores = [], coupons = [], partial_urls = [], scraped_domains = []\<rparr>"

definition shop_v1 :: pyval where
  "shop_v1 = PDict [(''name'', PStr ''Shop''), (''country'', PStr ''DE''), (''active'', PBool True),
     (''publicCoupons'', PList [PDict [(''code'', PStr ''SAVE10'')], PDict [(''code'', PStr ''SHIP'')]]),
     (''partialUrls'', PList [PDict [(''domain'', PStr ''a.com''), (''partialURL'', PStr ''a.com'')]])]"

definition shop_v2 :: pyval where
  "shop_v2 = PDict [(''name'', PStr ''Shop''),
     (''publicCoupons'', PList [PDict [(''code'', PStr ''NEW5'')]])]"

definition shop_bad :: pyval where
  "shop_bad = PDict [(''name'', PStr ''Shop''), (''publicCoupons'', PNone)]"

definition db_v1 :: db where
  "db_v1 = fst (save_store_to_db empty_db ''a.com'' (PStr ''S1'') (PStr ''a.com'') shop_v1)"

definition db_v2 :: db where
  "db_v2 = fst (save_store_to_db db_v1 ''a.com'' (PStr ''S1'') (PStr ''a.com'') shop_v2)"

section \<open>The crawl of HoneyScraper (scraper.py)\<close>

text \<open>
  The transport seen by a run: the outcome of the \<open>n\<close>-th GET of the run (counted
  from 0) when it carries the given request. A run records the events it performs and
  counts its GETs; \<open>n_processed\<close>, \<open>n_skipped\<close> and \<open>n_errors\<close> are the local
  variables \<open>processed\<close>, \<open>skipped\<close> and \<open>errors\<close>. The database outlives the
  process, the counters do not.
\<close>

type_synonym world = "nat \<Rightarrow> request \<Rightarrow> outcome"

record run =
  database :: db
  events :: "event list"
  calls :: nat
  n_processed :: nat
  n_skipped :: nat
  n_errors :: nat

definition performed :: "event list list \<Rightarrow> 'a run_scheme \<Rightarrow> 'a run_scheme" where
  "performed attempts st =
     st\<lparr>events := events st @ concat attempts, calls := calls st + gets attempts\<rparr>"

text \<open>
  The body of \<open>for mapping in store_mappings\<close>, with \<open>domain_store_count\<close> passed
  along. An exception that leaves the loop is the first component; the state is the
  one reached when it was raised. The last two lookups are the \<open>store_details.get\<close>
  calls of the \<open>logger.info\<close> line after the save.
\<close>

definition process_mapping ::
  "world \<Rightarrow> rat \<Rightarrow> bool \<Rightarrow> string \<Rightarrow> pyval \<Rightarrow> run \<times> nat \<Rightarrow> exc option \<times> run \<times> nat" where
  "process_mapping w self_delay skip_existing domain mapping sc =
     (let st = fst sc; domain_store_count = snd sc in
      case py_get mapping ''storeId'' of
        Inl e \<Rightarrow> (Some e, st, domain_store_count)
      | Inr store_id \<Rightarrow>
      (case py_get mapping ''partialURL'' of
        Inl e \<Rightarrow> (Some e, st, domain_store_count)
      | Inr partial_url \<Rightarrow>
      (case (if skip_existing then store_exists (database st) store_id else Inr False) of
        Inl e \<Rightarrow> (Some e, st, domain_store_count)
      | Inr True \<Rightarrow> (None, st, domain_store_count + 1)
      | Inr False \<Rightarrow>
      (case get_store_details self_delay (\<lambda>a. w (calls st + a) (DetailReq store_id 3 1))
              store_id 3 1 of
        Inl e \<Rightarrow> (Some e, st, domain_store_count)
      | Inr (store_details, attempts) \<Rightarrow>
          (let st1 = performed attempts st in
           if truthy store_details then
             (let st2 = st1\<lparr>database :=
                          fst (save_store_to_db (database st1) domain store_id partial_url
                                 store_details),
                        n_processed := n_processed st1 + 1\<rparr>
              in case py_get_default store_details ''name'' (PStr ''Unknown'') of
                   Inl e \<Rightarrow> (Some e, st2, domain_store_count + 1)
                 | Inr name \<Rightarrow>
                     (case py_get_default store_details ''country'' (PStr ''N/A'') of
                        Inl e \<Rightarrow> (Some e, st2, domain_store_count + 1)
                      | Inr country \<Rightarrow> (None, st2, domain_store_count + 1)))
           else (None, st1\<lparr>n_errors := n_errors st1 + 1\<rparr>, domain_store_count))))))"

fun mappings_loop ::
  "world \<Rightarrow> rat \<Rightarrow> bool \<Rightarrow> string \<Rightarrow> pyval list \<Rightarrow> run \<times> nat \<Rightarrow> exc option \<times> run \<times> nat" where
  "mappings_loop w self_delay skip_existing domain [] sc = (None, sc)"
| "mappings_loop w self_delay skip_existing domain (mapping # rest) sc =
     (case process_mapping w self_delay skip_existing domain mapping sc of
        (Some e, sc2) \<Rightarrow> (Some e, sc2)
      | (None, sc2) \<Rightarrow> mappings_loop w self_delay skip_existing domain rest sc2)"

text \<open>
  The body of \<open>for i, domain in enumerate(domains, 1)\<close>: skip a marked domain in
  resume mode, otherwise resolve the mappings, mark the domain with 0 when there are
  none, else handle each mapping and mark the domain with \<open>domain_store_count\<close>.
\<close>

definition process_domain ::
  "world \<Rightarrow> rat \<Rightarrow> bool \<Rightarrow> string \<Rightarrow> run \<Rightarrow> exc option \<times> run" where
  "process_domain w self_delay skip_existing domain st =
     (if skip_existing \<and> domain_scraped (database st) domain then
        (None, st\<lparr>n_skipped := n_skipped st + 1\<rparr>)
      else
        (case get_store_ids_by_domain self_delay (\<lambda>a. w (calls st + a) (MappingReq domain))
                domain of
           Inl e \<Rightarrow> (Some e, st)
         | Inr (store_mappings, attempts) \<Rightarrow>
             (let st1 = performed attempts st in
              if \<not> truthy store_mappings then
                (None, st1\<lparr>database := mark_domain_scraped (database st1) domain 0\<rparr>)
              else
                (case py_iter store_mappings of
                   Inl e \<Rightarrow> (Some e, st1)
                 | Inr mappings \<Rightarrow>
                     (case mappings_loop w self_delay skip_existing domain mappings (st1, 0) of
                        (Some e, st2, domain_store_count) \<Rightarrow> (Some e, st2)
                      | (None, st2, domain_store_count) \<Rightarrow>
                          (None, st2\<lparr>database :=
                             mark_domain_scraped (database st2) domain domain_store_count\<rparr>))))))"

fun domains_loop ::
  "world \<Rightarrow> rat \<Rightarrow> bool \<Rightarrow> string list \<Rightarrow> run \<Rightarrow> exc option \<times> run" where
  "domains_loop w self_delay skip_existing [] st = (None, st)"
| "domains_loop w self_delay skip_existing (domain # rest) st =
     (case process_domain w self_delay skip_existing domain st of
        (Some e, st2) \<Rightarrow> (Some e, st2)
      | (None, st2) \<Rightarrow> domains_loop w self_delay skip_existing rest st2)"

text \<open>\<open>xs[:n]\<close>: a negative \<open>n\<close> counts from the end.\<close>

definition py_slice_to :: "int \<Rightarrow> 'a list \<Rightarrow> 'a list" where
  "py_slice_to n xs =
     (if 0 \<le> n then take (nat n) xs else take (nat (int (length xs) + n)) xs)"

text \<open>\<open>if max_domains: domains = domains[:max_domains]\<close>.\<close>

definition limit_domains :: "int option \<Rightarrow> string list \<Rightarrow> string list" where
  "limit_domains max_domains domains =
     (case max_domains of
        None \<Rightarrow> domains
      | Some n \<Rightarrow> if n = 0 then domains else py_slice_to n domains)"

text \<open>
  \<open>HoneyScraper.scrape_all_stores\<close>. \<open>supported\<close> is what
  \<open>get_supported_domains\<close> returned (a list of strings, empty when its request
  failed). The run starts a process: its counters start at 0.
\<close>

definition start_process :: "run \<Rightarrow> run" where
  "start_process st = st\<lparr>n_processed := 0, n_skipped := 0, n_errors := 0\<rparr>"

definition scrape_all_stores ::
  "world \<Rightarrow> rat \<Rightarrow> string list \<Rightarrow> int option \<Rightarrow> bool \<Rightarrow> run \<Rightarrow> exc option \<times> run" where
  "scrape_all_stores w self_delay supported max_domains skip_existing st =
     (if supported = [] then (None, st)
      else domains_loop w self_delay skip_existing (limit_domains max_domains supported)
             (start_process st))"

section \<open>The monitored crawl and the delay setter (web\_dashboard.py)\<close>

text \<open>
  The global dict \<open>scraper_state\<close>, one field per key (\<open>started_at\<close> and \<open>mode\<close>,
  a timestamp and a label, are left out). \<open>last_error\<close> holds the text of an
  exception or a fixed message.
\<close>

datatype error_note = Raised exc | Note string

record scraper_state =
  running :: bool
  current_domain :: "string option"
  domains_processed :: nat
  total_domains :: nat
  stores_saved :: nat
  errors :: nat
  consecutive_errors :: nat
  last_error :: "error_note option"
  should_stop :: bool
  delay :: rat

text \<open>
  The monitored run also carries \<open>scraper_state\<close>. The stop endpoint runs on another
  thread and sets \<open>should_stop\<close> at any time; the run only reads the flag at its
  checks, so the other thread is modelled by \<open>stop_req\<close>: \<open>stop_req n\<close> tells whether a
  stop request has arrived when the run makes its \<open>n\<close>-th read of the flag (counted
  from 0). Once read as set the flag stays set.
\<close>

record monitored = run +
  checks :: nat
  status :: scraper_state

definition read_should_stop :: "(nat \<Rightarrow> bool) \<Rightarrow> monitored \<Rightarrow> bool \<times> monitored" where
  "read_should_stop stop_req st =
     (let flag = (should_stop (status st) \<or> stop_req (checks st))
      in (flag, st\<lparr>checks := checks st + 1, status := (status st)\<lparr>should_stop := flag\<rparr>\<rparr>))"

text \<open>
  The part of the two overrides that follows the call of the base method: on a result,
  reset \<open>consecutive_errors\<close> when the result is true; on an exception record it,
  count it, raise the stop flag at 10 and return the miss value.
\<close>

definition track_result ::
  "pyval \<Rightarrow> exc + (pyval \<times> event list list) \<Rightarrow> scraper_state
     \<Rightarrow> (pyval \<times> event list list) \<times> scraper_state" where
  "track_result miss outcome_of_super ss =
     (case outcome_of_super of
        Inr (result, attempts) \<Rightarrow>
          ((result, attempts), if truthy result then ss\<lparr>consecutive_errors := 0\<rparr> else ss)
      | Inl e \<Rightarrow>
          (let consecutive = consecutive_errors ss + 1;
               ss1 = ss\<lparr>last_error := Some (Raised e), consecutive_errors := consecutive\<rparr>
           in ((miss, []), if 10 \<le> consecutive then ss1\<lparr>should_stop := True\<rparr> else ss1)))"

definition monitored_get_store_ids_by_domain ::
  "rat \<Rightarrow> (nat \<Rightarrow> outcome) \<Rightarrow> string \<Rightarrow> scraper_state
     \<Rightarrow> (pyval \<times> event list list) \<times> scraper_state" where
  "monitored_get_store_ids_by_domain self_delay net domain ss =
     track_result (PList []) (get_store_ids_by_domain self_delay net domain) ss"

definition monitored_get_store_details ::
  "rat \<Rightarrow> (nat \<Rightarrow> outcome) \<Rightarrow> pyval \<Rightarrow> int \<Rightarrow> int \<Rightarrow> scraper_state
     \<Rightarrow> (pyval \<times> event list list) \<times> scraper_state" where
  "monitored_get_store_details self_delay net store_id max_ugc success_count ss =
     track_result PNone (get_store_details self_delay net store_id max_ugc success_count) ss"

text \<open>
  The body of the inner loop after its stop check. Unlike the base class it counts the
  mapping in \<open>domain_store_count\<close> whether or not the fetch gave a record.
\<close>

definition monitored_mapping ::
  "world \<Rightarrow> rat \<Rightarrow> bool \<Rightarrow> string \<Rightarrow> pyval \<Rightarrow> monitored \<times> nat
     \<Rightarrow> exc option \<times> monitored \<times> nat" where
  "monitored_mapping w self_delay skip_existing domain mapping sc =
     (let st = fst sc; domain_store_count = snd sc in
      case py_get mapping ''storeId'' of
        Inl e \<Rightarrow> (Some e, st, domain_store_count)
      | Inr store_id \<Rightarrow>
      (case py_get mapping ''partialURL'' of
        Inl e \<Rightarrow> (Some e, st, domain_store_count)
      | Inr partial_url \<Rightarrow>
      (case (if skip_existing then store_exists (database st) store_id else Inr False) of
        Inl e \<Rightarrow> (Some e, st, domain_store_count)
      | Inr True \<Rightarrow> (None, st, domain_store_count + 1)
      | Inr False \<Rightarrow>
          (let fetched = monitored_get_store_details self_delay
                           (\<lambda>a. w (calls st + a) (DetailReq store_id 3 1)) store_id 3 1 (status st);
               store_details = fst (fst fetched);
               st1 = (performed (snd (fst fetched)) st)\<lparr>status := snd fetched\<rparr>
           in if truthy store_details then
                (let processed = n_processed st1 + 1
                 in (None,
                     st1\<lparr>database :=
                           fst (save_store_to_db (database st1) domain store_id partial_url
                                  store_details),
                         n_processed := processed,
                         status := (status st1)\<lparr>stores_saved := processed\<rparr>\<rparr>,
                     domain_store_count + 1))
              else
                (let errs = n_errors st1 + 1
                 in (None,
                     st1\<lparr>n_errors := errs, status := (status st1)\<lparr>errors := errs\<rparr>\<rparr>,
                     domain_store_count + 1))))))"

text \<open>The inner loop: the stop check, then the body; \<open>break\<close> keeps the count so far.\<close>

fun monitored_mappings_loop ::
  "world \<Rightarrow> (nat \<Rightarrow> bool) \<Rightarrow> rat \<Rightarrow> bool \<Rightarrow> string \<Rightarrow> pyval list \<Rightarrow> monitored \<times> nat
     \<Rightarrow> exc option \<times> monitored \<times> nat" where
  "monitored_mappings_loop w stop_req self_delay skip_existing domain [] sc = (None, sc)"
| "monitored_mappings_loop w stop_req self_delay skip_existing domain (mapping # rest) sc =
     (case read_should_stop stop_req (fst sc) of
        (True, st1) \<Rightarrow> (None, st1, snd sc)
      | (False, st1) \<Rightarrow>
          (case monitored_mapping w self_delay skip_existing domain mapping (st1, snd sc) of
             (Some e, sc2) \<Rightarrow> (Some e, sc2)
           | (None, sc2) \<Rightarrow>
               monitored_mappings_loop w stop_req self_delay skip_existing domain rest sc2))"

text \<open>
  The body of the outer loop after its stop check, for the \<open>i\<close>-th domain. The third
  component tells whether the final stop check of the body asked to \<open>break\<close>.
\<close>

definition monitored_domain ::
  "world \<Rightarrow> (nat \<Rightarrow> bool) \<Rightarrow> rat \<Rightarrow> bool \<Rightarrow> nat \<Rightarrow> string \<Rightarrow> monitored
     \<Rightarrow> exc option \<times> monitored \<times> bool" where
  "monitored_domain w stop_req self_delay skip_existing i domain st0 =
     (let st = st0\<lparr>status := (status st0)\<lparr>current_domain := Some domain,
                                           domains_processed := i\<rparr>\<rparr>
      in if skip_existing \<and> domain_scraped (database st) domain then
           (None, st\<lparr>n_skipped := n_skipped st + 1\<rparr>, False)
         else
           (let resolved = monitored_get_store_ids_by_domain self_delay
                             (\<lambda>a. w (calls st + a) (MappingReq domain)) domain (status st);
                store_mappings = fst (fst resolved);
                st1 = (performed (snd (fst resolved)) st)\<lparr>status := snd resolved\<rparr>
            in if \<not> truthy store_mappings then
                 (None, st1\<lparr>database := mark_domain_scraped (database st1) domain 0\<rparr>, False)
               else
                 (case py_iter store_mappings of
                    Inl e \<Rightarrow> (Some e, st1, False)
                  | Inr mappings \<Rightarrow>
                      (case monitored_mappings_loop w stop_req self_delay skip_existing domain
                              mappings (st1, 0) of
                         (Some e, st2, domain_store_count) \<Rightarrow> (Some e, st2, False)
                       | (None, st2, domain_store_count) \<Rightarrow>
                           (let st3 = st2\<lparr>database :=
                                  mark_domain_scraped (database st2) domain domain_store_count\<rparr>;
                                checked = read_should_stop stop_req st3
                            in (None, snd checked, fst checked))))))"

fun monitored_domains_loop ::
  "world \<Rightarrow> (nat \<Rightarrow> bool) \<Rightarrow> rat \<Rightarrow> bool \<Rightarrow> nat \<Rightarrow> string list \<Rightarrow> monitored
     \<Rightarrow> exc option \<times> monitored" where
  "monitored_domains_loop w stop_req self_delay skip_existing i [] st = (None, st)"
| "monitored_domains_loop w stop_req self_delay skip_existing i (domain # rest) st =
     (case read_should_stop stop_req st of
        (True, st1) \<Rightarrow> (None, st1)
      | (False, st1) \<Rightarrow>
          (case monitored_domain w stop_req self_delay skip_existing i domain st1 of
             (Some e, st2, stop) \<Rightarrow> (Some e, st2)
           | (None, st2, True) \<Rightarrow> (None, st2)
           | (None, st2, False) \<Rightarrow>
               monitored_domains_loop w stop_req self_delay skip_existing (i + 1) rest st2))"

text \<open>
  \<open>MonitoredScraper.scrape_all_stores\<close>: the updates before the \<open>try\<close>, the two
  early returns, the loop, and the \<open>finally\<close> clause, which also runs when an
  exception leaves the loop.
\<close>

definition enter_run :: "monitored \<Rightarrow> monitored" where
  "enter_run st =
     st\<lparr>status := (status st)\<lparr>running := True, should_stop := False,
                                consecutive_errors := 0, last_error := None\<rparr>\<rparr>"

definition finally_clause :: "monitored \<Rightarrow> monitored" where
  "finally_clause st =
     st\<lparr>status := (status st)\<lparr>running := False, current_domain := None,
                                should_stop := False\<rparr>\<rparr>"

definition monitored_try_body ::
  "world \<Rightarrow> (nat \<Rightarrow> bool) \<Rightarrow> rat \<Rightarrow> string list \<Rightarrow> int option \<Rightarrow> bool \<Rightarrow> monitored
     \<Rightarrow> exc option \<times> monitored" where
  "monitored_try_body w stop_req self_delay supported max_domains skip_existing st =
     (if supported = [] then
        (None, st\<lparr>status := (status st)\<lparr>last_error :=
                   Some (Note ''No domains found in domains list'')\<rparr>\<rparr>)
      else
        (let domains = limit_domains max_domains supported;
             already_scraped = length (filter (domain_scraped (database st)) domains)
         in if skip_existing \<and> already_scraped = length domains then
              (None, st\<lparr>status := (status st)\<lparr>last_error :=
                         Some (Note ''All selected domains already scraped'')\<rparr>\<rparr>)
            else
              monitored_domains_loop w stop_req self_delay skip_existing 1 domains
                (st\<lparr>n_processed := 0, n_skipped := 0, n_errors := 0,
                    status := (status st)\<lparr>total_domains := length domains\<rparr>\<rparr>)))"

definition monitored_scrape_all_stores ::
  "world \<Rightarrow> (nat \<Rightarrow> bool) \<Rightarrow> rat \<Rightarrow> string list \<Rightarrow> int option \<Rightarrow> bool \<Rightarrow> monitored
     \<Rightarrow> exc option \<times> monitored" where
  "monitored_scrape_all_stores w stop_req self_delay supported max_domains skip_existing st =
     (case monitored_try_body w stop_req self_delay supported max_domains skip_existing
             (enter_run st) of
        (raised, st2) \<Rightarrow> (raised, finally_clause st2))"

text \<open>
  \<open>api_scraper_delay\<close>. The argument is the result of \<open>float(data.get('delay', 0.5))\<close>:
  the number, or the \<open>ValueError\<close> / \<open>TypeError\<close> of the conversion. The reply is the
  HTTP status; on success the delay is stored in \<open>scraper_state\<close> and in the scraper
  instance when there is one.
\<close>

definition api_scraper_delay ::
  "exc + rat \<Rightarrow> scraper_state \<times> rat option \<Rightarrow> int \<times> scraper_state \<times> rat option" where
  "api_scraper_delay parsed si =
     (case parsed of
        Inl e \<Rightarrow> (400, si)
      | Inr d \<Rightarrow>
          if d < 0 then (400, si)
          else if 10 < d then (400, si)
          else (200, (fst si)\<lparr>delay := d\<rparr>, map_option (\<lambda>old. d) (snd si)))"

section \<open>Sample runs\<close>

text \<open>The initial \<open>scraper_state\<close> of the dashboard.\<close>

definition idle_state :: scraper_state where
  "idle_state = \<lparr>running = False, current_domain = None, domains_processed = 0,
     total_domains = 0, stores_saved = 0, errors = 0, consecutive_errors = 0,
     last_error = None, should_stop = False, delay = 1 / 2\<rparr>"

text \<open>A transport that answers 429 once and then times out.\<close>

definition rate_limit_then_timeouts :: "nat \<Rightarrow> outcome" where
  "rate_limit_then_timeouts a = (if a = 0 then Returns (Response 429 (Inl ValueError)) else Raises Timeout)"

text \<open>A monitored run on an empty database, before it starts.\<close>

definition fresh_monitor :: monitored where
  "fresh_monitor = \<lparr>database = empty_db, events = [], calls = 0, n_processed = 0,
     n_skipped = 0, n_errors = 0, checks = 0, status = idle_state\<rparr>"

text \<open>One entry of a mapping response.\<close>

definition store_mapping :: "string \<Rightarrow> string \<Rightarrow> pyval" where
  "store_mapping store_id partial_url =
     PDict [(''storeId'', PStr store_id), (''partialURL'', PStr partial_url)]"

text \<open>
  A run in which every fetch after the first fails: \<open>a.com\<close> resolves to twelve
  stores, every detail request and the mapping request of \<open>b.com\<close> time out, and
  nobody asks to stop. \<open>after_failing_run\<close> is the state when the loop has ended,
  before the \<open>finally\<close> clause clears the stop flag.
\<close>

definition twelve_stores :: pyval where
  "twelve_stores = PList (map (\<lambda>s. store_mapping s ''a.com'')
     [''S01'', ''S02'', ''S03'', ''S04'', ''S05'', ''S06'',
      ''S07'', ''S08'', ''S09'', ''S10'', ''S11'', ''S12''])"

definition failing_world :: world where
  "failing_world n req =
     (case req of
        MappingReq domain \<Rightarrow>
          if domain = ''a.com'' then ok_body ''getPartialURLsByDomain'' twelve_stores
          else Raises Timeout
      | DetailReq store_id max_ugc success_count \<Rightarrow> Raises Timeout)"

definition never_stop :: "nat \<Rightarrow> bool" where
  "never_stop n = False"

definition after_failing_run :: "exc option \<times> monitored" where
  "after_failing_run = monitored_try_body failing_world never_stop (1 / 2) [''a.com'', ''b.com'']
      None True (enter_run fresh_monitor)"

text \<open>
  A run that is asked to stop inside a domain: \<open>a.com\<close> resolves to the stores
  \<open>S1\<close> and \<open>S2\<close>, and the stop request arrives while \<open>S1\<close> is handled, so that
  the third read of the flag (before \<open>S2\<close>) sees it. \<open>resumed_run\<close> is the next run
  in resume mode, with no stop request.
\<close>

definition two_stores_world :: world where
  "two_stores_world n req =
     (case req of
        MappingReq domain \<Rightarrow>
          if domain = ''a.com'' then
            ok_body ''getPartialURLsByDomain''
              (PList [store_mapping ''S1'' ''a.com'', store_mapping ''S2'' ''a.com/x''])
          else ok_body ''getPartialURLsByDomain'' (PList [])
      | DetailReq store_id max_ugc success_count \<Rightarrow>
          if store_id = PStr ''S1'' then ok_body ''getStoreById'' shop_v1
          else ok_body ''getStoreById'' shop_v2)"

definition stop_at_third_check :: "nat \<Rightarrow> bool" where
  "stop_at_third_check n = (2 \<le> n)"

definition stopped_run :: "exc option \<times> monitored" where
  "stopped_run = monitored_scrape_all_stores two_stores_world stop_at_third_check (1 / 2)
      [''a.com''] None True fresh_monitor"

definition resumed_run :: "exc option \<times> monitored" where
  "resumed_run = monitored_scrape_all_stores two_stores_world never_stop (1 / 2)
      [''a.com''] None True (snd stopped_run)"

text \<open>
  A run whose only store has a payload with \<open>publicCoupons\<close> \<open>null\<close>: the save
  raises \<open>TypeError\<close> in the coupon loop, after the store row was written.
\<close>

definition bad_coupons_world :: world where
  "bad_coupons_world n req =
     (case req of
        MappingReq domain \<Rightarrow>
          ok_body ''getPartialURLsByDomain'' (PList [store_mapping ''S1'' ''a.com''])
      | DetailReq store_id max_ugc success_count \<Rightarrow> ok_body ''getStoreById'' shop_bad)"

definition failed_save_run :: "exc option \<times> monitored" where
  "failed_save_run = monitored_scrape_all_stores bad_coupons_world never_stop (1 / 2)
      [''a.com''] None True fresh_monitor"

section \<open>Vocabulary and samples for the base crawl\<close>


text \<open>
  A run on an empty database; a transport in which \<open>a.com\<close> resolves to one store
  whose detail request always times out; and the scenario of the specification:
  \<open>a.com\<close> resolves to the store \<open>S1\<close> with two coupons, any other domain to no
  store. \<open>interrupted_run\<close> is the state of a resume-mode run over \<open>a.com\<close>,
  \<open>b.com\<close> that was interrupted after its first domain.
\<close>

definition fresh_run :: run where
  "fresh_run = \<lparr>database = empty_db, events = [], calls = 0, n_processed = 0,
     n_skipped = 0, n_errors = 0\<rparr>"

definition one_store_timeout_world :: world where
  "one_store_timeout_world n req =
     (case req of
        MappingReq domain \<Rightarrow>
          ok_body ''getPartialURLsByDomain'' (PList [store_mapping ''S1'' ''a.com''])
      | DetailReq store_id max_ugc success_count \<Rightarrow> Raises Timeout)"



text \<open>
  A run of the base class that raises inside a domain: the second mapping of \<open>a.com\<close>
  is a string, not an object, so \<open>mapping.get\<close> raises \<open>AttributeError\<close> after the
  first store was saved.
\<close>

definition malformed_mapping_world :: world where
  "malformed_mapping_world n req =
     (case req of
        MappingReq domain \<Rightarrow>
          ok_body ''getPartialURLsByDomain'' (PList [store_mapping ''S1'' ''a.com'', PStr ''S2''])
      | DetailReq store_id max_ugc success_count \<Rightarrow> ok_body ''getStoreById'' shop_v1)"

definition crashed_run :: "exc option \<times> run" where
  "crashed_run = scrape_all_stores malformed_mapping_world (1 / 2) [''a.com''] None True fresh_run"

section \<open>How the base crawl handles a mapping\<close>

text \<open>
  The three ways \<open>HoneyScraper.scrape_all_stores\<close> deals with a mapping, read off the
  state in which the mapping is reached: its store is already in the database (resume
  mode only), its detail fetch returns a record (a true value), or the fetch fails.
  \<open>handlings\<close> lists this for the mappings of a domain in order, each in the state
  the loop has reached; \<open>stored_count\<close> and \<open>failed_count\<close> count the mappings whose
  store is present afterwards and the mappings whose fetch failed.
\<close>
datatype handled = AlreadyStored | Fetched | FetchFailed

definition classify :: "world \<Rightarrow> rat \<Rightarrow> bool \<Rightarrow> pyval \<Rightarrow> 'a run_scheme \<Rightarrow> handled" where
  "classify w self_delay skip_existing mapping st =
     (case py_get mapping ''storeId'' of
        Inl e \<Rightarrow> FetchFailed
      | Inr store_id \<Rightarrow>
          if skip_existing \<and> store_exists (database st) store_id = Inr True then AlreadyStored
          else
            (case get_store_details self_delay (\<lambda>a. w (calls st + a) (DetailReq store_id 3 1))
                    store_id 3 1 of
               Inl e \<Rightarrow> FetchFailed
             | Inr (store_details, attempts) \<Rightarrow>
                 if truthy store_details then Fetched else FetchFailed))"

fun handlings :: "world \<Rightarrow> rat \<Rightarrow> bool \<Rightarrow> string \<Rightarrow> pyval list \<Rightarrow> run \<Rightarrow> handled list" where
  "handlings w self_delay skip_existing domain [] st = []"
| "handlings w self_delay skip_existing domain (mapping # rest) st =
     classify w self_delay skip_existing mapping st
     # handlings w self_delay skip_existing domain rest
         (fst (snd (process_mapping w self_delay skip_existing domain mapping (st, 0))))"

definition stored_count :: "handled list \<Rightarrow> nat" where
  "stored_count hs = length (filter (\<lambda>h. h \<noteq> FetchFailed) hs)"

definition failed_count :: "handled list \<Rightarrow> nat" where
  "failed_count hs = length (filter (\<lambda>h. h = FetchFailed) hs)"

text \<open>
  A domain with three mappings: \<open>S1\<close> is already stored, the detail fetch of \<open>S2\<close>
  times out, and \<open>S3\<close> is fetched; the two runs start on a database that holds \<open>S1\<close>.
\<close>

definition mixed_world :: world where
  "mixed_world n req =
     (case req of
        MappingReq domain \<Rightarrow>
          ok_body ''getPartialURLsByDomain''
            (PList [store_mapping ''S1'' ''a.com'', store_mapping ''S2'' ''a.com/x'',
                    store_mapping ''S3'' ''a.com/y''])
      | DetailReq store_id max_ugc success_count \<Rightarrow>
          if store_id = PStr ''S2'' then Raises Timeout else ok_body ''getStoreById'' shop_v2)"

definition stored_run :: run where
  "stored_run = fresh_run\<lparr>database := db_v1\<rparr>"

definition stored_monitor :: monitored where
  "stored_monitor = fresh_monitor\<lparr>database := db_v1\<rparr>"

section \<open>The lookups never raise\<close>

lemma in_keys_iff: "k \<in> set (map fst kvs) \<longleftrightarrow> map_of kvs k \<noteq> None"
  by (induction kvs) auto

lemma py_in_dict: "py_in k (PDict kvs) = Inr (map_of kvs k \<noteq> None)"
  by (simp add: in_keys_iff del: set_map)

lemma extract_path_hit:
  assumes "response_path key data = Some v"
  shows "extract_path key miss data = Inr v"
proof -
  from assms obtain kvs where d: "data = PDict kvs"
    by (cases data) (simp_all add: response_path_def)
  from assms d obtain inner where i: "map_of kvs ''data'' = Some inner"
    by (cases "map_of kvs ''data''") (simp_all add: response_path_def)
  from assms d i obtain kvs2 where k: "inner = PDict kvs2"
    by (cases inner) (simp_all add: response_path_def)
  from assms d i k have v: "map_of kvs2 key = Some v"
    by (simp add: response_path_def)
  show ?thesis
    unfolding extract_path_def d
    by (simp add: py_in_dict i k v del: py_in.simps)
qed

lemma extract_path_miss:
  assumes "response_path key data = None"
  shows "extract_path key miss data = Inr miss \<or> extract_path key miss data = Inl TypeError"
proof (cases data)
  case (PDict kvs)
  show ?thesis
  proof (cases "map_of kvs ''data''")
    case None
    then show ?thesis unfolding extract_path_def PDict
      by (simp add: py_in_dict del: py_in.simps)
  next
    case (Some inner)
    show ?thesis
    proof (cases inner)
      case (PDict kvs2)
      with assms Some \<open>data = PDict kvs\<close> have "map_of kvs2 key = None"
        by (simp add: response_path_def)
      then show ?thesis unfolding extract_path_def \<open>data = PDict kvs\<close>
        by (simp add: py_in_dict Some PDict del: py_in.simps)
    qed (simp_all add: extract_path_def \<open>data = PDict kvs\<close> py_in_dict Some split: bool.splits del: py_in.simps(1))
  qed
qed (simp_all add: extract_path_def split: bool.splits)

lemma time_sleep_nonneg: "0 \<le> d \<Longrightarrow> time_sleep d evs = Inr (evs @ [Sleep d])"
  by (simp add: time_sleep_def)

lemma time_sleep_neg: "d < 0 \<Longrightarrow> time_sleep d evs = Inl ValueError"
  by (simp add: time_sleep_def)

lemma handler_nonneg:
  assumes "0 \<le> d"
  shows "\<exists>evs2 s. handler a d e evs = Inr (evs2, s) \<and> (\<forall>v. s \<noteq> Return v)
           \<and> (\<forall>d2. s = Continue d2 \<longrightarrow> 0 \<le> d2)"
proof -
  from assms have "0 \<le> d * (3 / 2)" by simp
  then show ?thesis
    by (simp add: handler_def Let_def time_sleep_nonneg)
qed

lemma handler_other:
  "e \<noteq> Timeout \<Longrightarrow> \<not> is_request_exception e \<Longrightarrow> handler a d e evs = Inr (evs, Break)"
  by (simp add: handler_def)

lemma try_body_neg: "d < 0 \<Longrightarrow> try_body req key miss d out = ([], Inl ValueError)"
  by (simp add: try_body_def time_sleep_neg)

lemma try_body_cases:
  assumes "0 \<le> d"
  shows "(\<exists>evs e. try_body req key miss d out = (evs, Inl e))
       \<or> (\<exists>evs. try_body req key miss d out = (evs, Inr (Continue (d * 2))))
       \<or> (\<exists>evs v. try_body req key miss d out = (evs, Inr (Return v))
            \<and> (v = miss \<or> delivered key out = Some v))"
proof (cases out)
  case (Raises e)
  then show ?thesis using assms by (simp add: try_body_def time_sleep_nonneg)
next
  case (Returns r)
  show ?thesis
  proof (cases "status_code r = 429")
    case True
    then show ?thesis using assms Returns
      by (simp add: try_body_def time_sleep_nonneg Let_def)
  next
    case n429: False
    show ?thesis
    proof (cases "400 \<le> status_code r \<and> status_code r < 600")
      case True
      then show ?thesis using assms Returns n429
        by (simp add: try_body_def time_sleep_nonneg Let_def raise_for_status_def)
    next
      case ok: False
      show ?thesis
      proof (cases "json r")
        case (Inl e)
        then show ?thesis using assms Returns n429 ok
          by (simp add: try_body_def time_sleep_nonneg Let_def raise_for_status_def)
      next
        case (Inr data)
        show ?thesis
        proof (cases "response_path key data")
          case None
          from extract_path_miss [OF None, of miss] show ?thesis
            using assms Returns n429 ok Inr
            by (auto simp add: try_body_def time_sleep_nonneg Let_def raise_for_status_def)
        next
          case (Some v)
          from extract_path_hit [OF Some, of miss] show ?thesis
            using assms Returns n429 ok Inr Some
            by (auto simp add: try_body_def time_sleep_nonneg Let_def raise_for_status_def
                delivered_def)
        qed
      qed
    qed
  qed
qed

lemma attempt_step_total:
  "\<exists>evs s. attempt_step req key miss a d out = Inr (evs, s)
      \<and> (\<forall>d2. s = Continue d2 \<longrightarrow> 0 \<le> d2)
      \<and> (\<forall>v. s = Return v \<longrightarrow> v = miss \<or> delivered key out = Some v)"
proof (cases "d < 0")
  case True
  then show ?thesis
    by (simp add: attempt_step_def try_body_neg handler_other)
next
  case False
  then have d: "0 \<le> d" by simp
  from try_body_cases [OF d, of req key miss out]
  consider (raised) evs e where "try_body req key miss d out = (evs, Inl e)"
    | (cont) evs where "try_body req key miss d out = (evs, Inr (Continue (d * 2)))"
    | (ret) evs v where "try_body req key miss d out = (evs, Inr (Return v))"
        "v = miss \<or> delivered key out = Some v"
    by blast
  then show ?thesis
  proof cases
    case raised
    from handler_nonneg [OF d, of a e evs] show ?thesis
      using raised by (auto simp add: attempt_step_def)
  next
    case cont
    then show ?thesis using d by (simp add: attempt_step_def)
  next
    case ret
    then show ?thesis by (simp add: attempt_step_def)
  qed
qed

lemma retry_loop_total:
  "\<exists>v evs. retry_loop req key miss net as d done = Inr (v, evs)
      \<and> (v = miss \<or> (\<exists>a \<in> set as. delivered key (net a) = Some v))"
proof (induction as arbitrary: d "done")
  case Nil
  show ?case by simp
next
  case (Cons a as)
  from attempt_step_total [of req key miss a d "net a"]
  obtain evs s where st: "attempt_step req key miss a d (net a) = Inr (evs, s)"
    and ret: "\<forall>v. s = Return v \<longrightarrow> v = miss \<or> delivered key (net a) = Some v"
    by blast
  show ?case
  proof (cases s)
    case (Return v)
    with st ret show ?thesis by auto
  next
    case (Continue d2)
    from Cons.IH [of d2 "done @ [evs]"] show ?thesis
      using st Continue by auto
  next
    case Break
    with st show ?thesis by simp
  qed
qed

text \<open>
  C4. Whatever the base delay and whatever the transport does in each attempt, the
  store-mapping lookup and the store-detail lookup return a value and never an
  exception. The value is the empty list (mapping) or \<open>None\<close> (detail) unless one of the
  attempts delivered a payload; in particular, when every attempt fails (retries
  exhausted, or an unexpected failure such as an undecodable body) the mapping lookup
  returns the empty list and the detail lookup returns \<open>None\<close>.
\<close>

theorem lookups_never_raise:
  "(\<exists>v evs. get_store_ids_by_domain self_delay net domain = Inr (v, evs)
       \<and> (v = PList [] \<or> (\<exists>a<max_retries. delivered ''getPartialURLsByDomain'' (net a) = Some v)))
   \<and> (\<exists>v evs. get_store_details self_delay net2 store_id max_ugc success_count = Inr (v, evs)
       \<and> (v = PNone \<or> (\<exists>a<max_retries. delivered ''getStoreById'' (net2 a) = Some v)))
   \<and> ((\<forall>a<max_retries. delivered ''getPartialURLsByDomain'' (net a) = None)
         \<longrightarrow> (\<exists>evs. get_store_ids_by_domain self_delay net domain = Inr (PList [], evs)))
   \<and> ((\<forall>a<max_retries. delivered ''getStoreById'' (net2 a) = None)
         \<longrightarrow> (\<exists>evs. get_store_details self_delay net2 store_id max_ugc success_count = Inr (PNone, evs)))"
proof -
  from retry_loop_total [of "MappingReq domain" "''getPartialURLsByDomain''" "PList []" net
      "[0 ..< max_retries]" self_delay "[]"]
  have m: "\<exists>v evs. get_store_ids_by_domain self_delay net domain = Inr (v, evs)
       \<and> (v = PList [] \<or> (\<exists>a<max_retries. delivered ''getPartialURLsByDomain'' (net a) = Some v))"
    unfolding get_store_ids_by_domain_def by auto
  from retry_loop_total [of "DetailReq store_id max_ugc success_count" "''getStoreById''" PNone
      net2 "[0 ..< max_retries]" self_delay "[]"]
  have d: "\<exists>v evs. get_store_details self_delay net2 store_id max_ugc success_count = Inr (v, evs)
       \<and> (v = PNone \<or> (\<exists>a<max_retries. delivered ''getStoreById'' (net2 a) = Some v))"
    unfolding get_store_details_def by auto
  from m have m2: "(\<forall>a<max_retries. delivered ''getPartialURLsByDomain'' (net a) = None)
         \<longrightarrow> (\<exists>evs. get_store_ids_by_domain self_delay net domain = Inr (PList [], evs))"
    by fastforce
  from d have d2: "(\<forall>a<max_retries. delivered ''getStoreById'' (net2 a) = None)
         \<longrightarrow> (\<exists>evs. get_store_details self_delay net2 store_id max_ugc success_count = Inr (PNone, evs))"
    by fastforce
  from m d m2 d2 show ?thesis by blast
qed

theorem lookups_never_raise_witness:
  "delivered ''getPartialURLsByDomain'' (Raises Timeout) = None
   \<and> delivered ''getStoreById'' (Returns (Response 200 (Inl ValueError))) = None
   \<and> (\<exists>evs. get_store_ids_by_domain (1 / 2) (\<lambda>a. Raises Timeout) ''a.com'' = Inr (PList [], evs))
   \<and> (\<exists>evs. get_store_details (1 / 2) (\<lambda>a. Returns (Response 200 (Inl ValueError)))
          (PStr ''S1'') 3 1 = Inr (PNone, evs))"
  using lookups_never_raise [of "1 / 2" "\<lambda>a. Raises Timeout" "''a.com''"
      "\<lambda>a. Returns (Response 200 (Inl ValueError))" "PStr ''S1''" 3 1]
  by (simp add: delivered_def)

lemma attempt_step_429:
  "0 \<le> d \<Longrightarrow> rate_limited out \<Longrightarrow>
     attempt_step req key miss a d out = Inr ([Sleep d, Get req, Sleep (d * 2)], Continue (d * 2))"
  by (cases out) (simp_all add: rate_limited_def attempt_step_def try_body_def time_sleep_nonneg Let_def)

lemma attempt_step_delivered:
  assumes "0 \<le> d" "delivered key out = Some v"
  shows "attempt_step req key miss a d out = Inr ([Sleep d, Get req], Return v)"
proof -
  from assms(2) obtain r data where o: "out = Returns r" and s: "status_code r \<noteq> 429"
    "\<not> (400 \<le> status_code r \<and> status_code r < 600)" and j: "json r = Inr data"
    and p: "response_path key data = Some v"
    by (auto simp add: delivered_def split: outcome.splits if_splits sum.splits)
  from extract_path_hit [OF p, of miss] show ?thesis
    using assms(1) o s j
    by (auto simp add: attempt_step_def try_body_def time_sleep_nonneg Let_def raise_for_status_def)
qed

lemma backoff_trace_0:
  "backoff_trace req d 0 = [[Sleep d, Get req]]"
  by (simp add: backoff_trace_def max_retries_def limited_attempt_def final_attempt_def)

lemma backoff_trace_1:
  "backoff_trace req d (Suc 0) = [[Sleep d, Get req, Sleep (d * 2)], [Sleep (d * 2), Get req]]"
  by (simp add: backoff_trace_def max_retries_def limited_attempt_def final_attempt_def)

lemma backoff_trace_2:
  "backoff_trace req d 2 = [[Sleep d, Get req, Sleep (d * 2)],
      [Sleep (d * 2), Get req, Sleep (d * 4)], [Sleep (d * 4), Get req]]"
  by (simp add: backoff_trace_def max_retries_def limited_attempt_def final_attempt_def
      upt_rec numeral_2_eq_2)

lemma backoff_trace_3:
  "3 \<le> N \<Longrightarrow> backoff_trace req d N = [[Sleep d, Get req, Sleep (d * 2)],
      [Sleep (d * 2), Get req, Sleep (d * 4)], [Sleep (d * 4), Get req, Sleep (d * 8)]]"
  by (simp add: backoff_trace_def max_retries_def limited_attempt_def final_attempt_def
      upt_rec numeral_3_eq_3 min_def)

lemma retry_loop_backoff:
  assumes "0 \<le> d" "\<forall>a<N. rate_limited (net a)" "delivered key (net N) = Some v"
  shows "retry_loop req key miss net [0 ..< max_retries] d [] =
     Inr (if N < max_retries then v else miss, backoff_trace req d N)"
proof -
  have u: "[0 ..< max_retries] = [0, Suc 0, 2]"
    by (simp add: max_retries_def upt_rec numeral_2_eq_2)
  have d2: "0 \<le> d * 2" "0 \<le> d * 4" using assms(1) by simp_all
  consider "N = 0" | "N = Suc 0" | "N = 2" | "3 \<le> N" by linarith
  then show ?thesis
  proof cases
    case 1
    with assms show ?thesis
      unfolding u by (simp add: attempt_step_delivered backoff_trace_0 max_retries_def)
  next
    case 2
    with assms have "rate_limited (net 0)" "delivered key (net (Suc 0)) = Some v" by simp_all
    with assms(1) d2 2 show ?thesis
      unfolding u by (simp add: attempt_step_429 attempt_step_delivered backoff_trace_1 max_retries_def)
  next
    case 3
    with assms have "rate_limited (net 0)" "rate_limited (net (Suc 0))" "delivered key (net 2) = Some v"
      by simp_all
    with assms(1) d2 3 show ?thesis
      unfolding u by (simp add: attempt_step_429 attempt_step_delivered backoff_trace_2 max_retries_def)
  next
    case 4
    with assms have "rate_limited (net 0)" "rate_limited (net (Suc 0))" "rate_limited (net 2)"
      by simp_all
    with assms(1) d2 4 show ?thesis
      unfolding u by (simp add: attempt_step_429 backoff_trace_3 max_retries_def)
  qed
qed

lemma limited_sleeps:
  "map (attempt_sleep \<circ> limited_attempt req d) xs = map (\<lambda>a. 3 * d * 2 ^ a) xs"
  by (simp add: attempt_sleep_def limited_attempt_def)

lemma sorted_limited_sleeps:
  assumes "0 < (d::rat)"
  shows "sorted_wrt (<) (map (\<lambda>a. 3 * d * 2 ^ a) [0 ..< n])"
proof -
  have "\<And>i j::nat. i < j \<Longrightarrow> 3 * d * 2 ^ i < 3 * d * 2 ^ j"
    using assms by simp
  then show ?thesis
    by (simp add: sorted_wrt_map sorted_wrt_iff_nth_less)
qed

lemma backoff_trace_increasing:
  assumes "0 < d"
  shows "sorted_wrt (<) (cumulative_sleep (backoff_trace req d N))
       \<and> gets (backoff_trace req d N) = min (N + 1) max_retries"
proof -
  consider "N = 0" | "N = Suc 0" | "N = 2" | "3 \<le> N" by linarith
  then show ?thesis
  proof cases
    case 1
    then show ?thesis using assms
      by (simp add: backoff_trace_0 cumulative_sleep_def attempt_sleep_def gets_def max_retries_def)
  next
    case 2
    then show ?thesis using assms
      by (simp add: backoff_trace_1 cumulative_sleep_def attempt_sleep_def gets_def max_retries_def)
  next
    case 3
    then show ?thesis using assms
      by (simp add: backoff_trace_2 cumulative_sleep_def attempt_sleep_def gets_def max_retries_def)
  next
    case 4
    then show ?thesis using assms
      by (simp add: backoff_trace_3 cumulative_sleep_def attempt_sleep_def gets_def max_retries_def)
  qed
qed

section \<open>Backoff under rate limiting\<close>

text \<open>
  C8. With a positive base delay, \<open>N\<close> consecutive 429 responses followed by a good
  response: every rate-limited attempt sends one GET, doubles the delay and sleeps it
  (attempt \<open>a\<close> sleeps \<open>delay * 2 ^ a\<close> before and \<open>delay * 2 ^ (a + 1)\<close> after
  its GET), so that \<open>min (N + 1) 3\<close> of the three attempts are used. The running total
  of sleep after each attempt is strictly increasing, and so is the sleep of the
  successive rate-limited attempts. The lookup returns the payload when \<open>N < 3\<close>, and
  the empty list / \<open>None\<close> (a value, not an exception) otherwise.
\<close>

theorem backoff_on_429:
  assumes "0 < self_delay"
    and "\<forall>a<N. rate_limited (net a)"
    and "delivered ''getPartialURLsByDomain'' (net N) = Some v"
    and "\<forall>a<N. rate_limited (net2 a)"
    and "delivered ''getStoreById'' (net2 N) = Some v2"
  shows "get_store_ids_by_domain self_delay net domain =
           Inr (if N < max_retries then v else PList [], backoff_trace (MappingReq domain) self_delay N)
       \<and> get_store_details self_delay net2 store_id max_ugc success_count =
           Inr (if N < max_retries then v2 else PNone,
                backoff_trace (DetailReq store_id max_ugc success_count) self_delay N)
       \<and> (\<forall>req. sorted_wrt (<) (cumulative_sleep (backoff_trace req self_delay N))
            \<and> sorted_wrt (<) (map attempt_sleep
                  (map (limited_attempt req self_delay) [0 ..< min N max_retries]))
            \<and> gets (backoff_trace req self_delay N) = min (N + 1) max_retries)"
proof -
  from assms(1) have d: "0 \<le> self_delay" by simp
  show ?thesis
    using retry_loop_backoff [OF d assms(2) assms(3)] retry_loop_backoff [OF d assms(4) assms(5)]
      backoff_trace_increasing [OF assms(1)] sorted_limited_sleeps [OF assms(1)]
    by (simp add: get_store_ids_by_domain_def get_store_details_def limited_sleeps)
qed

theorem backoff_on_429_witness:
  "(0::rat) < 1 / 2
   \<and> rate_limited (two_429_then_ok ''getPartialURLsByDomain'' (PList [PInt 7]) 0)
   \<and> rate_limited (two_429_then_ok ''getPartialURLsByDomain'' (PList [PInt 7]) 1)
   \<and> delivered ''getPartialURLsByDomain''
         (two_429_then_ok ''getPartialURLsByDomain'' (PList [PInt 7]) 2) = Some (PList [PInt 7])
   \<and> delivered ''getStoreById'' (two_429_then_ok ''getStoreById'' (PInt 8) 2) = Some (PInt 8)
   \<and> get_store_ids_by_domain (1 / 2)
         (two_429_then_ok ''getPartialURLsByDomain'' (PList [PInt 7])) ''a.com''
       = Inr (PList [PInt 7],
           [[Sleep (1 / 2), Get (MappingReq ''a.com''), Sleep 1],
            [Sleep 1, Get (MappingReq ''a.com''), Sleep 2],
            [Sleep 2, Get (MappingReq ''a.com'')]])
   \<and> cumulative_sleep (backoff_trace (MappingReq ''a.com'') (1 / 2) 2) = [3 / 2, 9 / 2, 13 / 2]"
proof -
  have h: "(0::rat) < 1 / 2"
    "\<forall>a<2. rate_limited (two_429_then_ok ''getPartialURLsByDomain'' (PList [PInt 7]) a)"
    "delivered ''getPartialURLsByDomain''
         (two_429_then_ok ''getPartialURLsByDomain'' (PList [PInt 7]) 2) = Some (PList [PInt 7])"
    "\<forall>a<2. rate_limited (two_429_then_ok ''getStoreById'' (PInt 8) a)"
    "delivered ''getStoreById'' (two_429_then_ok ''getStoreById'' (PInt 8) 2) = Some (PInt 8)"
    by (simp_all add: rate_limited_def two_429_then_ok_def delivered_def ok_body_def
        response_path_def)
  have t: "backoff_trace (MappingReq ''a.com'') (1 / 2) 2 =
           [[Sleep (1 / 2), Get (MappingReq ''a.com''), Sleep 1],
            [Sleep 1, Get (MappingReq ''a.com''), Sleep 2],
            [Sleep 2, Get (MappingReq ''a.com'')]]"
    by (simp add: backoff_trace_2)
  have c: "cumulative_sleep (backoff_trace (MappingReq ''a.com'') (1 / 2) 2) = [3 / 2, 9 / 2, 13 / 2]"
    by (simp add: t cumulative_sleep_def attempt_sleep_def)
  have r: "rate_limited (two_429_then_ok ''getPartialURLsByDomain'' (PList [PInt 7]) 0)"
    "rate_limited (two_429_then_ok ''getPartialURLsByDomain'' (PList [PInt 7]) 1)"
    by (simp_all add: rate_limited_def two_429_then_ok_def)
  from backoff_on_429 [OF h, of "''a.com''" "PInt 0" 3 1]
  show ?thesis using h(1) h(3) h(5) r t c by (simp add: max_retries_def)
qed

section \<open>A well-formed miss ends the lookup at once\<close>

lemma handler_request_exception:
  assumes "0 \<le> d" "is_request_exception e"
  shows "\<exists>evs2. handler a d e evs = Inr (evs2, Continue (d * (3 / 2)))
           \<and> filter is_get evs2 = filter is_get evs"
proof -
  from assms(1) have "0 \<le> d * (3 / 2)" by simp
  with assms(2) show ?thesis
    by (simp add: handler_def Let_def time_sleep_nonneg)
qed

lemma attempt_step_retried:
  assumes "0 \<le> d" "retried out"
  shows "\<exists>evs d2. attempt_step req key miss a d out = Inr (evs, Continue d2) \<and> 0 \<le> d2
           \<and> length (filter is_get evs) = 1"
proof (cases "rate_limited out")
  case True
  from attempt_step_429 [OF assms(1) True, of req key miss a] assms(1) show ?thesis by simp
next
  case False
  have "\<exists>e. is_request_exception e \<and> try_body req key miss d out = ([Sleep d, Get req], Inl e)"
  proof (cases out)
    case (Raises e)
    with assms show ?thesis
      by (simp add: retried_def try_body_def time_sleep_nonneg)
  next
    case (Returns r)
    with False have n: "status_code r \<noteq> 429" by (simp add: rate_limited_def)
    show ?thesis
    proof (cases "400 \<le> status_code r \<and> status_code r < 600")
      case True
      with Returns n assms(1) show ?thesis
        by (auto simp add: try_body_def time_sleep_nonneg raise_for_status_def
            intro: exI [of _ HTTPError])
    next
      case False
      with assms(2) Returns n obtain e where "json r = Inl e" "is_request_exception e"
        by (auto simp add: retried_def split: sum.splits)
      with Returns n False assms(1) show ?thesis
        by (auto simp add: try_body_def time_sleep_nonneg raise_for_status_def)
    qed
  qed
  then obtain e where e: "is_request_exception e"
    "try_body req key miss d out = ([Sleep d, Get req], Inl e)" by blast
  from handler_request_exception [OF assms(1) e(1), of a "[Sleep d, Get req]"]
  obtain evs2 where h: "handler a d e [Sleep d, Get req] = Inr (evs2, Continue (d * (3 / 2)))"
    and g: "filter is_get evs2 = filter is_get [Sleep d, Get req]" by blast
  have "0 \<le> d * (3 / 2)" using assms(1) by simp
  moreover have "attempt_step req key miss a d out = Inr (evs2, Continue (d * (3 / 2)))"
    using e(2) h by (simp add: attempt_step_def)
  moreover have "length (filter is_get evs2) = 1" using g by simp
  ultimately show ?thesis by blast
qed

lemma attempt_step_miss:
  assumes "0 \<le> d" "well_formed_miss key out"
  shows "attempt_step req key miss a d out = Inr ([Sleep d, Get req], Return miss)
       \<or> attempt_step req key miss a d out = Inr ([Sleep d, Get req], Break)"
proof -
  from assms(2) obtain r data where o: "out = Returns r"
    and s: "200 \<le> status_code r" "status_code r < 300"
    and j: "json r = Inr data" and p: "response_path key data = None"
    by (auto simp add: well_formed_miss_def split: outcome.splits sum.splits)
  from s have s2: "status_code r \<noteq> 429" "\<not> (400 \<le> status_code r \<and> status_code r < 600)"
    by simp_all
  from extract_path_miss [OF p, of miss] show ?thesis
    using assms(1) o s2 j
    by (auto simp add: attempt_step_def try_body_def time_sleep_nonneg raise_for_status_def
        handler_other)
qed

lemma retry_loop_miss:
  assumes "0 \<le> d" "\<forall>b \<in> set pre. retried (net b)" "well_formed_miss key (net a)"
  shows "\<exists>attempts. retry_loop req key miss net (pre @ a # post) d done = Inr (miss, done @ attempts)
           \<and> length attempts = length pre + 1 \<and> gets attempts = length pre + 1"
  using assms
proof (induction pre arbitrary: d "done")
  case Nil
  from attempt_step_miss [OF Nil(1) Nil(3), of req miss a] show ?case
    by (auto simp add: gets_def)
next
  case (Cons b pre)
  from Cons.prems have "retried (net b)" by simp
  from attempt_step_retried [OF Cons.prems(1) this, of req key miss b]
  obtain evs d2 where st: "attempt_step req key miss b d (net b) = Inr (evs, Continue d2)"
    and d2: "0 \<le> d2" and g: "length (filter is_get evs) = 1" by blast
  from Cons.prems have pre: "\<forall>b \<in> set pre. retried (net b)" by simp
  from Cons.IH [OF d2 pre Cons.prems(3), of "done @ [evs]"]
  obtain attempts where r: "retry_loop req key miss net (pre @ a # post) d2 (done @ [evs])
      = Inr (miss, (done @ [evs]) @ attempts)"
    and l: "length attempts = length pre + 1" "gets attempts = length pre + 1" by blast
  have "retry_loop req key miss net ((b # pre) @ a # post) d done = Inr (miss, done @ (evs # attempts))"
    using st r by simp
  moreover have "length (evs # attempts) = length (b # pre) + 1" using l by simp
  moreover have "gets (evs # attempts) = length (b # pre) + 1" using l g by (simp add: gets_def)
  ultimately show ?case by blast
qed

lemma retry_loop_exhausted:
  assumes "0 \<le> d" "\<forall>b \<in> set as. retried (net b)"
  shows "\<exists>attempts. retry_loop req key miss net as d done = Inr (miss, done @ attempts)
           \<and> length attempts = length as \<and> gets attempts = length as"
  using assms
proof (induction as arbitrary: d "done")
  case Nil
  show ?case by (simp add: gets_def)
next
  case (Cons b as)
  from Cons.prems have "retried (net b)" by simp
  from attempt_step_retried [OF Cons.prems(1) this, of req key miss b]
  obtain evs d2 where st: "attempt_step req key miss b d (net b) = Inr (evs, Continue d2)"
    and d2: "0 \<le> d2" and g: "length (filter is_get evs) = 1" by blast
  from Cons.prems have pre: "\<forall>b \<in> set as. retried (net b)" by simp
  from Cons.IH [OF d2 pre, of "done @ [evs]"]
  obtain attempts where r: "retry_loop req key miss net as d2 (done @ [evs])
      = Inr (miss, (done @ [evs]) @ attempts)"
    and l: "length attempts = length as" "gets attempts = length as" by blast
  have "retry_loop req key miss net (b # as) d done = Inr (miss, done @ (evs # attempts))"
    using st r by simp
  moreover have "length (evs # attempts) = length (b # as)" using l by simp
  moreover have "gets (evs # attempts) = length (b # as)" using l g by (simp add: gets_def)
  ultimately show ?case by blast
qed

lemma upt_split: "a < n \<Longrightarrow> [0 ..< n] = [0 ..< a] @ a # [Suc a ..< n]"
  by (metis upt_conv_Cons upt_add_eq_append zero_le le_add_diff_inverse less_imp_le_nat add.left_neutral)

lemma retry_loop_miss_at:
  assumes "0 \<le> d" "a < max_retries" "\<forall>b<a. retried (net b)" "well_formed_miss key (net a)"
  shows "\<exists>attempts. retry_loop req key miss net [0 ..< max_retries] d [] = Inr (miss, attempts)
           \<and> length attempts = a + 1 \<and> gets attempts = a + 1"
proof -
  have pre: "\<forall>b \<in> set [0 ..< a]. retried (net b)" using assms(3) by simp
  from retry_loop_miss [OF assms(1) pre assms(4), of req miss "[Suc a ..< max_retries]" "[]"]
  show ?thesis
    by (simp add: upt_split [OF assms(2), symmetric])
qed

text \<open>
  C10. With a non-negative base delay, when the attempts before attempt \<open>a\<close> were all
  retried and attempt \<open>a\<close> receives a 2xx response whose body decodes but lacks the
  response path (\<open>data.getPartialURLsByDomain\<close>, \<open>data.getStoreById\<close>), the lookup
  returns the empty list / \<open>None\<close> after exactly \<open>a + 1\<close> attempts and GETs: no
  further attempt is made. The value is the one returned when all three attempts are
  used up by retried failures, so the caller cannot tell the two apart.
\<close>

theorem well_formed_miss_returns_at_once:
  assumes "0 \<le> self_delay" and "a < max_retries"
    and "\<forall>b<a. retried (net b)" and "well_formed_miss ''getPartialURLsByDomain'' (net a)"
    and "\<forall>b<a. retried (net2 b)" and "well_formed_miss ''getStoreById'' (net2 a)"
    and "\<forall>b<max_retries. retried (net3 b)"
  shows "(\<exists>attempts. get_store_ids_by_domain self_delay net domain = Inr (PList [], attempts)
            \<and> length attempts = a + 1 \<and> gets attempts = a + 1)
       \<and> (\<exists>attempts. get_store_details self_delay net2 store_id max_ugc success_count
              = Inr (PNone, attempts)
            \<and> length attempts = a + 1 \<and> gets attempts = a + 1)
       \<and> (\<exists>attempts. get_store_ids_by_domain self_delay net3 domain = Inr (PList [], attempts)
            \<and> gets attempts = max_retries)
       \<and> (\<exists>attempts. get_store_details self_delay net3 store_id max_ugc success_count
              = Inr (PNone, attempts)
            \<and> gets attempts = max_retries)"
proof -
  have ex: "\<forall>b \<in> set [0 ..< max_retries]. retried (net3 b)" using assms(7) by simp
  have 1: "\<exists>attempts. get_store_ids_by_domain self_delay net domain = Inr (PList [], attempts)
            \<and> length attempts = a + 1 \<and> gets attempts = a + 1"
    unfolding get_store_ids_by_domain_def
    by (rule retry_loop_miss_at [OF assms(1) assms(2) assms(3) assms(4)])
  have 2: "\<exists>attempts. get_store_details self_delay net2 store_id max_ugc success_count
              = Inr (PNone, attempts)
            \<and> length attempts = a + 1 \<and> gets attempts = a + 1"
    unfolding get_store_details_def
    by (rule retry_loop_miss_at [OF assms(1) assms(2) assms(5) assms(6)])
  have 3: "\<exists>attempts. get_store_ids_by_domain self_delay net3 domain = Inr (PList [], attempts)
            \<and> gets attempts = max_retries"
    unfolding get_store_ids_by_domain_def
    using retry_loop_exhausted [OF assms(1) ex, of "MappingReq domain"
        "''getPartialURLsByDomain''" "PList []" "[]"]
    by auto
  have 4: "\<exists>attempts. get_store_details self_delay net3 store_id max_ugc success_count
              = Inr (PNone, attempts)
            \<and> gets attempts = max_retries"
    unfolding get_store_details_def
    using retry_loop_exhausted [OF assms(1) ex, of "DetailReq store_id max_ugc success_count"
        "''getStoreById''" PNone "[]"]
    by auto
  from 1 2 3 4 show ?thesis by blast
qed

theorem well_formed_miss_returns_at_once_witness:
  "(0::rat) \<le> 1 / 2 \<and> 0 < max_retries
   \<and> well_formed_miss ''getPartialURLsByDomain'' empty_object
   \<and> well_formed_miss ''getStoreById'' empty_object
   \<and> retried (Raises Timeout)
   \<and> get_store_ids_by_domain (1 / 2) (\<lambda>a. empty_object) ''a.com''
        = Inr (PList [], [[Sleep (1 / 2), Get (MappingReq ''a.com'')]])
   \<and> (\<exists>attempts. get_store_ids_by_domain (1 / 2) (\<lambda>a. Raises Timeout) ''a.com''
          = Inr (PList [], attempts) \<and> gets attempts = 3)"
proof -
  have h: "(0::rat) \<le> 1 / 2" "0 < max_retries"
    "\<forall>b<0::nat. retried ((\<lambda>a. empty_object) b)"
    "well_formed_miss ''getPartialURLsByDomain'' ((\<lambda>a. empty_object) 0)"
    "well_formed_miss ''getStoreById'' ((\<lambda>a. empty_object) 0)"
    "\<forall>b<max_retries. retried ((\<lambda>a. Raises Timeout) b)"
    by (simp_all add: max_retries_def well_formed_miss_def empty_object_def retried_def
        response_path_def)
  have c: "get_store_ids_by_domain (1 / 2) (\<lambda>a. empty_object) ''a.com''
        = Inr (PList [], [[Sleep (1 / 2), Get (MappingReq ''a.com'')]])"
    by (simp add: get_store_ids_by_domain_def max_retries_def upt_rec attempt_step_def
        try_body_def time_sleep_def empty_object_def raise_for_status_def extract_path_def)
  from well_formed_miss_returns_at_once [OF h(1) h(2) h(3) h(4) h(3) h(5) h(6), of "''a.com''"]
  show ?thesis using h c by (simp add: max_retries_def retried_def)
qed

section \<open>Saving a store is an atomic replacement\<close>

lemma row_of_key:
  assumes "row_of store_id leading obj cols = Inr r" "sql_bind (Val store_id) = Inr k"
  shows "fst r = k"
  using assms by (auto simp add: row_of_def split: sum.splits)

lemma insert_children_rows:
  assumes "insert_children store_id cols cs tbl = Inr t"
  shows "\<exists>rows. collect (\<lambda>c. row_of store_id [] c cols) cs = Inr rows \<and> t = tbl @ rows"
  using assms
proof (induction cs arbitrary: tbl)
  case Nil
  then show ?case by simp
next
  case (Cons c cs)
  from Cons.prems obtain r where r: "row_of store_id [] c cols = Inr r"
    and rest: "insert_children store_id cols cs (tbl @ [r]) = Inr t"
    by (auto split: sum.splits)
  from Cons.IH [OF rest] obtain rows where
    "collect (\<lambda>c. row_of store_id [] c cols) cs = Inr rows" "t = (tbl @ [r]) @ rows" by blast
  with r show ?case by simp
qed

lemma collect_rows_key:
  assumes "collect (\<lambda>c. row_of store_id [] c cols) cs = Inr rows"
    and "sql_bind (Val store_id) = Inr k"
  shows "\<forall>r \<in> set rows. fst r = k"
  using assms
proof (induction cs arbitrary: rows)
  case Nil
  then show ?case by simp
next
  case (Cons c cs)
  from Cons.prems(1) obtain r rs where r: "row_of store_id [] c cols = Inr r"
    and rs: "collect (\<lambda>c. row_of store_id [] c cols) cs = Inr rs" and e: "rows = r # rs"
    by (auto split: sum.splits)
  from row_of_key [OF r Cons.prems(2)] Cons.IH [OF rs Cons.prems(2)] e show ?case by simp
qed

lemma rows_of_store_replace:
  assumes "k \<noteq> SNull" "\<forall>r \<in> set rows. fst r = k"
  shows "rows_of_store k (delete_where k tbl @ rows) = rows"
    and "other_rows k (delete_where k tbl @ rows) = other_rows k tbl"
proof -
  have a: "filter (key_matches k) rows = rows" using assms
    by (simp add: key_matches_def filter_id_conv)
  have b: "filter (\<lambda>r. \<not> key_matches k r) rows = []" using assms
    by (simp add: key_matches_def filter_empty_conv)
  show "rows_of_store k (delete_where k tbl @ rows) = rows"
    by (simp add: rows_of_store_def delete_where_def a)
  show "other_rows k (delete_where k tbl @ rows) = other_rows k tbl"
    by (simp add: other_rows_def delete_where_def b)
qed

lemma save_transaction_commit:
  assumes "save_transaction d domain store_id partial_url details = Inr d2"
    and "sql_bind (Val store_id) = Inr k" and "k \<noteq> SNull"
  shows "\<exists>vs crows prows.
      row_of store_id [Val (PStr domain), Val partial_url] details store_columns = Inr (k, vs)
      \<and> payload_rows store_id ''publicCoupons'' coupon_columns details = Inr crows
      \<and> payload_rows store_id ''partialUrls'' partial_url_columns details = Inr prows
      \<and> rows_of_store k (stores d2) = [(k, vs)]
      \<and> rows_of_store k (coupons d2) = crows
      \<and> rows_of_store k (partial_urls d2) = prows
      \<and> other_rows k (stores d2) = other_rows k (stores d)
      \<and> other_rows k (coupons d2) = other_rows k (coupons d)
      \<and> other_rows k (partial_urls d2) = other_rows k (partial_urls d)
      \<and> scraped_domains d2 = scraped_domains d"
proof -
  from assms(1) obtain k2 vs where row: "row_of store_id [Val (PStr domain), Val partial_url]
      details store_columns = Inr (k2, vs)"
    by (auto simp add: save_transaction_def split: sum.splits prod.splits)
  from row_of_key [OF row assms(2)] have k2: "k2 = k" by simp
  from assms(1) row k2 obtain cv cs t pv pus t2 where
    cv: "py_get_default details ''publicCoupons'' (PList []) = Inr cv" "py_iter cv = Inr cs"
    and t: "insert_children store_id coupon_columns cs (delete_where k (coupons d)) = Inr t"
    and pv: "py_get_default details ''partialUrls'' (PList []) = Inr pv" "py_iter pv = Inr pus"
    and t2: "insert_children store_id partial_url_columns pus (delete_where k (partial_urls d)) = Inr t2"
    and d2: "d2 = d\<lparr>stores := insert_or_replace k vs (stores d), coupons := t, partial_urls := t2\<rparr>"
    by (auto simp add: save_transaction_def Let_def split: sum.splits prod.splits)
  from insert_children_rows [OF t] obtain crows where
    crows: "collect (\<lambda>c. row_of store_id [] c coupon_columns) cs = Inr crows"
    and tt: "t = delete_where k (coupons d) @ crows" by blast
  from insert_children_rows [OF t2] obtain prows where
    prows: "collect (\<lambda>c. row_of store_id [] c partial_url_columns) pus = Inr prows"
    and tt2: "t2 = delete_where k (partial_urls d) @ prows" by blast
  note ck = collect_rows_key [OF crows assms(2)]
  note pk = collect_rows_key [OF prows assms(2)]
  have s: "insert_or_replace k vs (stores d) = delete_where k (stores d) @ [(k, vs)]"
    by (simp add: insert_or_replace_def delete_where_def)
  have sk: "\<forall>r \<in> set [(k, vs)]. fst r = k" by simp
  have "payload_rows store_id ''publicCoupons'' coupon_columns details = Inr crows"
    using cv crows by (simp add: payload_rows_def)
  moreover have "payload_rows store_id ''partialUrls'' partial_url_columns details = Inr prows"
    using pv prows by (simp add: payload_rows_def)
  moreover have "rows_of_store k (stores d2) = [(k, vs)]"
    "other_rows k (stores d2) = other_rows k (stores d)"
    using rows_of_store_replace [OF assms(3) sk, of "stores d"] by (simp_all add: d2 s)
  moreover have "rows_of_store k (coupons d2) = crows"
    "other_rows k (coupons d2) = other_rows k (coupons d)"
    using rows_of_store_replace [OF assms(3) ck, of "coupons d"] by (simp_all add: d2 tt)
  moreover have "rows_of_store k (partial_urls d2) = prows"
    "other_rows k (partial_urls d2) = other_rows k (partial_urls d)"
    using rows_of_store_replace [OF assms(3) pk, of "partial_urls d"] by (simp_all add: d2 tt2)
  moreover have "scraped_domains d2 = scraped_domains d" by (simp add: d2)
  ultimately show ?thesis using row k2 by blast
qed

lemma save_store_to_db_cases:
  "(\<exists>d2. save_transaction d domain store_id partial_url details = Inr d2
        \<and> save_store_to_db d domain store_id partial_url details = (d2, None))
   \<or> (\<exists>e u. save_transaction d domain store_id partial_url details = Inl (e, u)
        \<and> save_store_to_db d domain store_id partial_url details = (d, Some e))"
  by (cases "save_transaction d domain store_id partial_url details")
    (auto simp add: save_store_to_db_def)

text \<open>
  C7. Two saves for the same store identifier. When the second save commits, the store
  has exactly one row in \<open>stores\<close> (the row of the second payload), and its rows in
  \<open>coupons\<close> and \<open>partial_urls\<close> are exactly the rows of the second payload, in its
  order, whatever the first save left. When the second save fails, it is rolled back
  and the database is as the first save left it, so that the rows are those of the
  first payload if that save committed.
\<close>

theorem save_twice:
  assumes "save_store_to_db d0 domain1 (PStr sid) partial_url1 details1 = (d1, logged1)"
    and "save_store_to_db d1 domain2 (PStr sid) partial_url2 details2 = (d2, logged2)"
  shows "(logged2 = None \<longrightarrow>
            (\<exists>vs crows prows.
               row_of (PStr sid) [Val (PStr domain2), Val partial_url2] details2 store_columns
                 = Inr (SText sid, vs)
               \<and> payload_rows (PStr sid) ''publicCoupons'' coupon_columns details2 = Inr crows
               \<and> payload_rows (PStr sid) ''partialUrls'' partial_url_columns details2 = Inr prows
               \<and> rows_of_store (SText sid) (stores d2) = [(SText sid, vs)]
               \<and> rows_of_store (SText sid) (coupons d2) = crows
               \<and> rows_of_store (SText sid) (partial_urls d2) = prows))
       \<and> (logged2 \<noteq> None \<longrightarrow> d2 = d1)
       \<and> (logged2 \<noteq> None \<and> logged1 = None \<longrightarrow>
            (\<exists>vs crows prows.
               row_of (PStr sid) [Val (PStr domain1), Val partial_url1] details1 store_columns
                 = Inr (SText sid, vs)
               \<and> payload_rows (PStr sid) ''publicCoupons'' coupon_columns details1 = Inr crows
               \<and> payload_rows (PStr sid) ''partialUrls'' partial_url_columns details1 = Inr prows
               \<and> rows_of_store (SText sid) (stores d2) = [(SText sid, vs)]
               \<and> rows_of_store (SText sid) (coupons d2) = crows
               \<and> rows_of_store (SText sid) (partial_urls d2) = prows))"
proof -
  have k: "sql_bind (Val (PStr sid)) = Inr (SText sid)" "SText sid \<noteq> SNull" by simp_all
  have second: "logged2 = None \<longrightarrow>
            (\<exists>vs crows prows.
               row_of (PStr sid) [Val (PStr domain2), Val partial_url2] details2 store_columns
                 = Inr (SText sid, vs)
               \<and> payload_rows (PStr sid) ''publicCoupons'' coupon_columns details2 = Inr crows
               \<and> payload_rows (PStr sid) ''partialUrls'' partial_url_columns details2 = Inr prows
               \<and> rows_of_store (SText sid) (stores d2) = [(SText sid, vs)]
               \<and> rows_of_store (SText sid) (coupons d2) = crows
               \<and> rows_of_store (SText sid) (partial_urls d2) = prows)"
  proof
    assume "logged2 = None"
    with assms(2) save_store_to_db_cases [of d1 domain2 "PStr sid" partial_url2 details2]
    have "save_transaction d1 domain2 (PStr sid) partial_url2 details2 = Inr d2" by auto
    from save_transaction_commit [OF this k] show "\<exists>vs crows prows.
               row_of (PStr sid) [Val (PStr domain2), Val partial_url2] details2 store_columns
                 = Inr (SText sid, vs)
               \<and> payload_rows (PStr sid) ''publicCoupons'' coupon_columns details2 = Inr crows
               \<and> payload_rows (PStr sid) ''partialUrls'' partial_url_columns details2 = Inr prows
               \<and> rows_of_store (SText sid) (stores d2) = [(SText sid, vs)]
               \<and> rows_of_store (SText sid) (coupons d2) = crows
               \<and> rows_of_store (SText sid) (partial_urls d2) = prows" by blast
  qed
  have rollback: "logged2 \<noteq> None \<longrightarrow> d2 = d1"
    using assms(2) save_store_to_db_cases [of d1 domain2 "PStr sid" partial_url2 details2]
    by auto
  have first: "logged2 \<noteq> None \<and> logged1 = None \<longrightarrow>
            (\<exists>vs crows prows.
               row_of (PStr sid) [Val (PStr domain1), Val partial_url1] details1 store_columns
                 = Inr (SText sid, vs)
               \<and> payload_rows (PStr sid) ''publicCoupons'' coupon_columns details1 = Inr crows
               \<and> payload_rows (PStr sid) ''partialUrls'' partial_url_columns details1 = Inr prows
               \<and> rows_of_store (SText sid) (stores d2) = [(SText sid, vs)]
               \<and> rows_of_store (SText sid) (coupons d2) = crows
               \<and> rows_of_store (SText sid) (partial_urls d2) = prows)"
  proof
    assume a: "logged2 \<noteq> None \<and> logged1 = None"
    with rollback have e: "d2 = d1" by simp
    from a assms(1) save_store_to_db_cases [of d0 domain1 "PStr sid" partial_url1 details1]
    have "save_transaction d0 domain1 (PStr sid) partial_url1 details1 = Inr d1" by auto
    from save_transaction_commit [OF this k] e show "\<exists>vs crows prows.
               row_of (PStr sid) [Val (PStr domain1), Val partial_url1] details1 store_columns
                 = Inr (SText sid, vs)
               \<and> payload_rows (PStr sid) ''publicCoupons'' coupon_columns details1 = Inr crows
               \<and> payload_rows (PStr sid) ''partialUrls'' partial_url_columns details1 = Inr prows
               \<and> rows_of_store (SText sid) (stores d2) = [(SText sid, vs)]
               \<and> rows_of_store (SText sid) (coupons d2) = crows
               \<and> rows_of_store (SText sid) (partial_urls d2) = prows" by blast
  qed
  from second rollback first show ?thesis by blast
qed

lemma db_v2_committed:
  "save_store_to_db db_v1 ''a.com'' (PStr ''S1'') (PStr ''a.com'') shop_v2 = (db_v2, None)"
  by code_simp

lemma db_v1_saved:
  "save_store_to_db empty_db ''a.com'' (PStr ''S1'') (PStr ''a.com'') shop_v1 = (db_v1, None)"
  by code_simp

theorem save_twice_witness:
  "save_store_to_db empty_db ''a.com'' (PStr ''S1'') (PStr ''a.com'') shop_v1 = (db_v1, None)
   \<and> save_store_to_db db_v1 ''a.com'' (PStr ''S1'') (PStr ''a.com'') shop_v2 = (db_v2, None)
   \<and> length (rows_of_store (SText ''S1'') (stores db_v2)) = 1
   \<and> payload_rows (PStr ''S1'') ''publicCoupons'' coupon_columns shop_v2
        = Inr (rows_of_store (SText ''S1'') (coupons db_v2))
   \<and> payload_rows (PStr ''S1'') ''partialUrls'' partial_url_columns shop_v2
        = Inr (rows_of_store (SText ''S1'') (partial_urls db_v2))
   \<and> length (rows_of_store (SText ''S1'') (coupons db_v1)) = 2
   \<and> length (rows_of_store (SText ''S1'') (coupons db_v2)) = 1
   \<and> rows_of_store (SText ''S1'') (partial_urls db_v2) = []"
proof -
  have c: "length (rows_of_store (SText ''S1'') (coupons db_v1)) = 2"
    "length (rows_of_store (SText ''S1'') (coupons db_v2)) = 1"
    "rows_of_store (SText ''S1'') (partial_urls db_v2) = []"
    by code_simp+
  from save_twice [OF db_v1_saved db_v2_committed] obtain vs crows prows where
    "payload_rows (PStr ''S1'') ''publicCoupons'' coupon_columns shop_v2 = Inr crows"
    "payload_rows (PStr ''S1'') ''partialUrls'' partial_url_columns shop_v2 = Inr prows"
    "rows_of_store (SText ''S1'') (stores db_v2) = [(SText ''S1'', vs)]"
    "rows_of_store (SText ''S1'') (coupons db_v2) = crows"
    "rows_of_store (SText ''S1'') (partial_urls db_v2) = prows" by auto
  with db_v1_saved db_v2_committed c show ?thesis by simp
qed

section \<open>A base delay of zero\<close>

lemma try_body_zero:
  assumes "try_body req key miss 0 out = (evs, r)"
  shows "set evs \<subseteq> {Sleep 0, Get req} \<and> (\<forall>d2. r = Inr (Continue d2) \<longrightarrow> d2 = 0)"
  using assms
  by (cases out)
    (auto simp add: try_body_def time_sleep_def Let_def split: sum.splits if_splits)

lemma handler_zero:
  assumes "handler a 0 e evs = Inr (evs2, s)"
  shows "set evs2 \<subseteq> set evs \<union> {Sleep 0} \<and> (\<forall>d2. s = Continue d2 \<longrightarrow> d2 = 0)"
  using assms
  by (auto simp add: handler_def time_sleep_def Let_def split: if_splits)

lemma attempt_step_zero:
  assumes "attempt_step req key miss a 0 out = Inr (evs, s)"
  shows "set evs \<subseteq> {Sleep 0, Get req} \<and> (\<forall>d2. s = Continue d2 \<longrightarrow> d2 = 0)"
proof (cases "try_body req key miss 0 out")
  case (Pair evs0 r)
  note tb = try_body_zero [OF Pair]
  show ?thesis
  proof (cases r)
    case (Inl e)
    with assms Pair have "handler a 0 e evs0 = Inr (evs, s)" by (simp add: attempt_step_def)
    from handler_zero [OF this] tb show ?thesis by auto
  next
    case (Inr s2)
    with assms Pair have "evs = evs0" "s = s2" by (simp_all add: attempt_step_def)
    with tb Inr show ?thesis by simp
  qed
qed

lemma retry_loop_zero:
  assumes "retry_loop req key miss net as 0 done = Inr (v, attempts)"
    and "\<forall>evs \<in> set done. set evs \<subseteq> {Sleep 0, Get req}"
  shows "\<forall>evs \<in> set attempts. set evs \<subseteq> {Sleep 0, Get req}"
  using assms
proof (induction as arbitrary: "done")
  case Nil
  then show ?case by simp
next
  case (Cons a as)
  from attempt_step_total [of req key miss a 0 "net a"]
  obtain evs s where st: "attempt_step req key miss a 0 (net a) = Inr (evs, s)" by blast
  note z = attempt_step_zero [OF st]
  from z Cons.prems(2) have d: "\<forall>evs \<in> set (done @ [evs]). set evs \<subseteq> {Sleep 0, Get req}"
    by auto
  show ?case
  proof (cases s)
    case (Return v2)
    with st Cons.prems(1) have "attempts = done @ [evs]" by simp
    with d show ?thesis by simp
  next
    case (Continue d2)
    with z have "d2 = 0" by simp
    with st Continue Cons.prems(1)
    have "retry_loop req key miss net as 0 (done @ [evs]) = Inr (v, attempts)" by simp
    from Cons.IH [OF this d] show ?thesis .
  next
    case Break
    with st Cons.prems(1) have "attempts = done @ [evs]" by simp
    with d show ?thesis by simp
  qed
qed

lemma sleeps_zero:
  assumes "\<forall>evs \<in> set attempts. set evs \<subseteq> {Sleep 0, Get req}"
  shows "set (sleeps attempts) \<subseteq> {0}"
proof
  fix x assume "x \<in> set (sleeps attempts)"
  then obtain e evs where e: "x = sleep_of e" "e \<in> set evs" "evs \<in> set attempts"
    by (auto simp add: sleeps_def)
  with assms have "e = Sleep 0 \<or> e = Get req" by auto
  with e(1) show "x \<in> {0}" by auto
qed

lemma lookup_zero_sleeps:
  assumes "retry_loop req key miss net as 0 [] = Inr (v, attempts)"
  shows "set (sleeps attempts) \<subseteq> {0}"
proof -
  have "\<forall>evs \<in> set attempts. set evs \<subseteq> {Sleep 0, Get req}"
    by (rule retry_loop_zero [OF assms]) simp
  then show ?thesis by (rule sleeps_zero)
qed

lemma zero_run:
  "get_store_ids_by_domain 0 rate_limit_then_timeouts ''a.com''
     = Inr (PList [], [[Sleep 0, Get (MappingReq ''a.com''), Sleep 0],
                       [Sleep 0, Get (MappingReq ''a.com''), Sleep 0],
                       [Sleep 0, Get (MappingReq ''a.com'')]])"
  by code_simp

section \<open>The monitored crawl\<close>

lemma track_result_super_returns:
  assumes "super = Inr (v, attempts)"
  shows "fst (track_result miss super ss) = (v, attempts)"
    and "consecutive_errors (snd (track_result miss super ss)) = 0
         \<or> consecutive_errors (snd (track_result miss super ss)) = consecutive_errors ss"
    and "should_stop (snd (track_result miss super ss)) = should_stop ss"
    and "last_error (snd (track_result miss super ss)) = last_error ss"
    and "errors (snd (track_result miss super ss)) = errors ss"
    and "stores_saved (snd (track_result miss super ss)) = stores_saved ss"
  using assms by (simp_all add: track_result_def)

lemma lookups_return:
  "\<exists>v attempts. get_store_ids_by_domain self_delay net domain = Inr (v, attempts)"
  "\<exists>v attempts. get_store_details self_delay net store_id max_ugc success_count = Inr (v, attempts)"
  using retry_loop_total [of "MappingReq domain" "''getPartialURLsByDomain''" "PList []" net
      "[0 ..< max_retries]" self_delay "[]"]
    retry_loop_total [of "DetailReq store_id max_ugc success_count" "''getStoreById''" PNone
      net "[0 ..< max_retries]" self_delay "[]"]
  by (auto simp add: get_store_ids_by_domain_def get_store_details_def)

lemma monitored_ids_never_counts:
  "(consecutive_errors (snd (monitored_get_store_ids_by_domain self_delay net domain ss)) = 0
    \<or> consecutive_errors (snd (monitored_get_store_ids_by_domain self_delay net domain ss))
       = consecutive_errors ss)
   \<and> should_stop (snd (monitored_get_store_ids_by_domain self_delay net domain ss)) = should_stop ss
   \<and> last_error (snd (monitored_get_store_ids_by_domain self_delay net domain ss)) = last_error ss"
proof -
  from lookups_return(1) [of self_delay net domain] obtain v attempts
    where r: "get_store_ids_by_domain self_delay net domain = Inr (v, attempts)" by blast
  from track_result_super_returns(2,3,4) [OF r, of "PList []" ss] show ?thesis
    by (simp add: monitored_get_store_ids_by_domain_def)
qed

lemma monitored_details_never_counts:
  "(consecutive_errors (snd (monitored_get_store_details self_delay net store_id mu sc ss)) = 0
    \<or> consecutive_errors (snd (monitored_get_store_details self_delay net store_id mu sc ss))
       = consecutive_errors ss)
   \<and> should_stop (snd (monitored_get_store_details self_delay net store_id mu sc ss)) = should_stop ss
   \<and> last_error (snd (monitored_get_store_details self_delay net store_id mu sc ss)) = last_error ss"
proof -
  from lookups_return(2) [of self_delay net store_id mu sc] obtain v attempts
    where r: "get_store_details self_delay net store_id mu sc = Inr (v, attempts)" by blast
  from track_result_super_returns(2,3,4) [OF r, of PNone ss] show ?thesis
    by (simp add: monitored_get_store_details_def)
qed

lemma failing_run_value:
  "fst after_failing_run = None"
  "n_errors (snd after_failing_run) = 12"
  "errors (status (snd after_failing_run)) = 12"
  "consecutive_errors (status (snd after_failing_run)) = 0"
  "should_stop (status (snd after_failing_run)) = False"
  "calls (snd after_failing_run) = 40"
  "scraped_domains (database (snd after_failing_run)) = [(''a.com'', 12), (''b.com'', 0)]"
  by code_simp+

text \<open>
  C1, evaluated on the code. The overrides count a failure only when the base lookup
  raises, and the base lookups never raise: after either monitored lookup
  \<open>consecutive_errors\<close> is 0 or unchanged and \<open>should_stop\<close> is unchanged. In the
  sample run twelve detail fetches fail in a row; the error count is 12, the
  consecutive-error count stays 0, the stop flag is never set, and the run goes on to
  \<open>b.com\<close> (40 GETs, both domains marked).
\<close>

theorem circuit_breaker_never_counts:
  "((consecutive_errors (snd (monitored_get_store_ids_by_domain self_delay net domain ss)) = 0
      \<or> consecutive_errors (snd (monitored_get_store_ids_by_domain self_delay net domain ss))
         = consecutive_errors ss)
    \<and> should_stop (snd (monitored_get_store_ids_by_domain self_delay net domain ss))
         = should_stop ss)
   \<and> ((consecutive_errors (snd (monitored_get_store_details self_delay net2 store_id 3 1 ss)) = 0
      \<or> consecutive_errors (snd (monitored_get_store_details self_delay net2 store_id 3 1 ss))
         = consecutive_errors ss)
    \<and> should_stop (snd (monitored_get_store_details self_delay net2 store_id 3 1 ss))
         = should_stop ss)
   \<and> fst after_failing_run = None
   \<and> errors (status (snd after_failing_run)) = 12
   \<and> consecutive_errors (status (snd after_failing_run)) = 0
   \<and> should_stop (status (snd after_failing_run)) = False
   \<and> calls (snd after_failing_run) = 40
   \<and> scraped_domains (database (snd after_failing_run)) = [(''a.com'', 12), (''b.com'', 0)]"
  using monitored_ids_never_counts [of self_delay net domain ss]
    monitored_details_never_counts [of self_delay net2 store_id 3 1 ss]
    failing_run_value
  by simp

text \<open>
  C3, evaluated on the code. A stop request that arrives while the first of two stores
  of \<open>a.com\<close> is handled: the inner loop breaks before \<open>S2\<close>, and the marker of
  \<open>a.com\<close> is written all the same, with count 1. No request for \<open>S2\<close> was sent, and
  the next run in resume mode skips the domain, so \<open>S2\<close> is never fetched. The base
  class has no stop; when it is cut short inside a domain (here by an exception on the
  second mapping) it has saved the first store and written no marker.
\<close>

theorem stop_inside_domain_writes_marker:
  "fst stopped_run = None
   \<and> scraped_domains (database (snd stopped_run)) = [(''a.com'', 1)]
   \<and> map fst (stores (database (snd stopped_run))) = [SText ''S1'']
   \<and> events (snd stopped_run)
       = [Sleep (1 / 2), Get (MappingReq ''a.com''), Sleep (1 / 2), Get (DetailReq (PStr ''S1'') 3 1)]
   \<and> fst resumed_run = None
   \<and> events (snd resumed_run) = events (snd stopped_run)
   \<and> database (snd resumed_run) = database (snd stopped_run)
   \<and> last_error (status (snd resumed_run)) = Some (Note ''All selected domains already scraped'')
   \<and> fst crashed_run = Some AttributeError
   \<and> map fst (stores (database (snd crashed_run))) = [SText ''S1'']
   \<and> scraped_domains (database (snd crashed_run)) = []"
  by code_simp

lemma monitored_details_keeps_counts:
  "errors (snd (monitored_get_store_details self_delay net store_id mu sc ss)) = errors ss
   \<and> stores_saved (snd (monitored_get_store_details self_delay net store_id mu sc ss))
       = stores_saved ss"
proof -
  from lookups_return(2) [of self_delay net store_id mu sc] obtain v attempts
    where r: "get_store_details self_delay net store_id mu sc = Inr (v, attempts)" by blast
  from track_result_super_returns(5,6) [OF r, of PNone ss] show ?thesis
    by (simp add: monitored_get_store_details_def)
qed

text \<open>
  The save and the step of the monitored controller around it, for a mapping whose
  detail fetch gave a true value: the save either commits the store row and both child
  tables together or, on any exception, leaves the database as it was and logs the
  exception; no exception reaches the controller, which increments \<open>processed\<close> and
  \<open>stores_saved\<close> and leaves both error counts as they were in either case.
\<close>

theorem save_is_atomic_and_counted_as_saved:
  assumes "py_get mapping ''storeId'' = Inr store_id"
    and "py_get mapping ''partialURL'' = Inr partial_url"
    and "(if skip_existing then store_exists (database st) store_id else Inr False) = Inr False"
    and "monitored_get_store_details self_delay (\<lambda>a. w (calls st + a) (DetailReq store_id 3 1))
           store_id 3 1 (status st) = ((store_details, attempts), ss)"
    and "truthy store_details"
  shows "((\<exists>d2. save_transaction (database st) domain store_id partial_url store_details = Inr d2
            \<and> save_store_to_db (database st) domain store_id partial_url store_details
                = (d2, None))
          \<or> (\<exists>e uncommitted.
                save_transaction (database st) domain store_id partial_url store_details
                  = Inl (e, uncommitted)
                \<and> save_store_to_db (database st) domain store_id partial_url store_details
                    = (database st, Some e)))
       \<and> (\<exists>st2. monitored_mapping w self_delay skip_existing domain mapping (st, count)
                    = (None, st2, count + 1)
              \<and> database st2
                  = fst (save_store_to_db (database st) domain store_id partial_url store_details)
              \<and> n_processed st2 = n_processed st + 1
              \<and> stores_saved (status st2) = n_processed st + 1
              \<and> n_errors st2 = n_errors st
              \<and> errors (status st2) = errors (status st))"
proof -
  from monitored_details_keeps_counts [of self_delay
      "\<lambda>a. w (calls st + a) (DetailReq store_id 3 1)" store_id 3 1 "status st"] assms(4)
  have e: "errors ss = errors (status st)" by simp
  have m: "\<exists>st2. monitored_mapping w self_delay skip_existing domain mapping (st, count)
                    = (None, st2, count + 1)
              \<and> database st2
                  = fst (save_store_to_db (database st) domain store_id partial_url store_details)
              \<and> n_processed st2 = n_processed st + 1
              \<and> stores_saved (status st2) = n_processed st + 1
              \<and> n_errors st2 = n_errors st
              \<and> errors (status st2) = errors (status st)"
    using assms e
    by (simp add: monitored_mapping_def Let_def performed_def)
  from save_store_to_db_cases [of "database st" domain store_id partial_url store_details] m
  show ?thesis by blast
qed

lemma bad_fetch:
  "monitored_get_store_details (1 / 2)
     (\<lambda>a. bad_coupons_world (calls fresh_monitor + a) (DetailReq (PStr ''S1'') 3 1))
     (PStr ''S1'') 3 1 (status fresh_monitor)
   = ((shop_bad, [[Sleep (1 / 2), Get (DetailReq (PStr ''S1'') 3 1)]]), idle_state)"
  by code_simp

theorem save_is_atomic_and_counted_as_saved_witness:
  "py_get (store_mapping ''S1'' ''a.com'') ''storeId'' = Inr (PStr ''S1'')
   \<and> py_get (store_mapping ''S1'' ''a.com'') ''partialURL'' = Inr (PStr ''a.com'')
   \<and> store_exists (database fresh_monitor) (PStr ''S1'') = Inr False
   \<and> truthy shop_bad
   \<and> save_store_to_db (database fresh_monitor) ''a.com'' (PStr ''S1'') (PStr ''a.com'') shop_bad
        = (database fresh_monitor, Some TypeError)
   \<and> (\<exists>st2. monitored_mapping bad_coupons_world (1 / 2) True ''a.com''
               (store_mapping ''S1'' ''a.com'') (fresh_monitor, 0) = (None, st2, 1)
          \<and> database st2 = database fresh_monitor
          \<and> n_processed st2 = 1 \<and> stores_saved (status st2) = 1
          \<and> n_errors st2 = 0 \<and> errors (status st2) = 0)"
proof -
  have h: "py_get (store_mapping ''S1'' ''a.com'') ''storeId'' = Inr (PStr ''S1'')"
    "py_get (store_mapping ''S1'' ''a.com'') ''partialURL'' = Inr (PStr ''a.com'')"
    "(if True then store_exists (database fresh_monitor) (PStr ''S1'') else Inr False) = Inr False"
    by code_simp+
  have t: "truthy shop_bad" by code_simp
  have s: "save_store_to_db (database fresh_monitor) ''a.com'' (PStr ''S1'') (PStr ''a.com'') shop_bad
        = (database fresh_monitor, Some TypeError)" by code_simp
  have z: "n_processed fresh_monitor = 0" "n_errors fresh_monitor = 0"
    "errors (status fresh_monitor) = 0" by code_simp+
  from save_is_atomic_and_counted_as_saved [where w = bad_coupons_world and st = fresh_monitor
      and skip_existing = True and self_delay = "1 / 2" and domain = "''a.com''" and count = 0,
      OF h(1) h(2) h(3) bad_fetch t]
  show ?thesis using h t s z by simp
qed

text \<open>
  C6, evaluated on the code. The only store of \<open>a.com\<close> has a payload whose
  \<open>publicCoupons\<close> is \<open>null\<close>: the save raises \<open>TypeError\<close> after the store row
  was written, is rolled back (no store row is left) and raises nothing to the
  controller, which then counts the store in \<open>processed\<close> and \<open>stores_saved\<close>; both
  error counts stay 0.
\<close>

theorem failed_save_counted_as_saved:
  "save_store_to_db empty_db ''a.com'' (PStr ''S1'') (PStr ''a.com'') shop_bad
     = (empty_db, Some TypeError)
   \<and> fst failed_save_run = None
   \<and> stores (database (snd failed_save_run)) = []
   \<and> n_errors (snd failed_save_run) = 0
   \<and> errors (status (snd failed_save_run)) = 0
   \<and> n_processed (snd failed_save_run) = 1
   \<and> stores_saved (status (snd failed_save_run)) = 1"
  by code_simp

section \<open>The base crawl: markers and resumption\<close>







lemma save_keeps_markers:
  "scraped_domains (fst (save_store_to_db d domain store_id partial_url details)) = scraped_domains d"
proof (cases "save_transaction d domain store_id partial_url details")
  case (Inl a)
  then show ?thesis by (cases a) (simp add: save_store_to_db_def)
next
  case (Inr d2)
  then have "scraped_domains d2 = scraped_domains d"
    by (auto simp add: save_transaction_def Let_def split: sum.splits prod.splits)
  with Inr show ?thesis by (simp add: save_store_to_db_def)
qed

lemma process_mapping_markers:
  "scraped_domains (database (fst (snd (process_mapping w sd skip domain m (st, c)))))
     = scraped_domains (database st)"
  unfolding process_mapping_def Let_def
  by (simp add: performed_def save_keeps_markers split: sum.splits bool.splits prod.splits)

lemma mappings_loop_markers:
  "scraped_domains (database (fst (snd (mappings_loop w sd skip domain ms (st, c)))))
     = scraped_domains (database st)"
proof (induction ms arbitrary: st c)
  case Nil
  show ?case by simp
next
  case (Cons m ms)
  obtain r st1 c1 where p: "process_mapping w sd skip domain m (st, c) = (r, st1, c1)"
    by (cases "process_mapping w sd skip domain m (st, c)") auto
  from process_mapping_markers [of w sd skip domain m st c] p
  have k: "scraped_domains (database st1) = scraped_domains (database st)" by simp
  show ?case
  proof (cases r)
    case None
    with p Cons.IH [of st1 c1] k show ?thesis by simp
  next
    case (Some e)
    with p k show ?thesis by simp
  qed
qed

lemma map_of_marked:
  "map_of (filter (\<lambda>r. fst r \<noteq> k) xs @ [(k, n)]) x = (if x = k then Some n else map_of xs x)"
  by (induction xs) auto

lemma marker_written:
  "map_of (scraped_domains (mark_domain_scraped d domain n)) x
     = (if x = domain then Some n else map_of (scraped_domains d) x)"
  by (simp add: mark_domain_scraped_def map_of_marked del: map_of_append)

lemma mark_keeps_marked:
  "domain_scraped d x \<Longrightarrow> domain_scraped (mark_domain_scraped d domain n) x"
  by (simp add: domain_scraped_def marker_written)

lemma process_domain_result:
  assumes "\<not> (skip \<and> domain_scraped (database st) domain)"
    and "get_store_ids_by_domain sd (\<lambda>a. w (calls st + a) (MappingReq domain)) domain
           = Inr (store_mappings, attempts)"
    and "process_domain w sd skip domain st = (None, st2)"
  shows "(\<not> truthy store_mappings \<and> st2 = (performed attempts st)\<lparr>database :=
             mark_domain_scraped (database st) domain 0\<rparr>)
       \<or> (\<exists>mappings st1 count. truthy store_mappings \<and> py_iter store_mappings = Inr mappings
            \<and> mappings_loop w sd skip domain mappings (performed attempts st, 0) = (None, st1, count)
            \<and> st2 = st1\<lparr>database := mark_domain_scraped (database st1) domain count\<rparr>)"
proof -
  from assms(1) have ns: "(skip \<and> domain_scraped (database st) domain) = False" by simp
  show ?thesis
  proof (cases "truthy store_mappings")
    case False
    with assms(2,3) show ?thesis
      by (simp add: process_domain_def ns performed_def)
  next
    case True
    show ?thesis
    proof (cases "py_iter store_mappings")
      case (Inl e)
      with assms(2,3) True show ?thesis by (simp add: process_domain_def ns)
    next
      case (Inr mappings)
      obtain r st1 count where
        m: "mappings_loop w sd skip domain mappings (performed attempts st, 0) = (r, st1, count)"
        by (cases "mappings_loop w sd skip domain mappings (performed attempts st, 0)") auto
      with assms(2,3) True Inr show ?thesis
        by (cases r) (simp_all add: process_domain_def ns)
    qed
  qed
qed




lemma process_mapping_state:
  "fst (process_mapping w sd skip domain m (st, c)) = fst (process_mapping w sd skip domain m (st, 0))
   \<and> fst (snd (process_mapping w sd skip domain m (st, c)))
       = fst (snd (process_mapping w sd skip domain m (st, 0)))"
  unfolding process_mapping_def Let_def
  by (simp split: sum.splits bool.splits prod.splits)

lemma process_mapping_exact:
  assumes "process_mapping w sd skip domain m (st, c) = (None, st2, c2)"
  shows "c2 = c + stored_count [classify w sd skip m st]
       \<and> n_errors st2 = n_errors st + failed_count [classify w sd skip m st]"
  using assms unfolding process_mapping_def classify_def Let_def stored_count_def failed_count_def
  by (auto simp add: performed_def split: sum.splits bool.splits prod.splits if_splits)

lemma counts_cons:
  "stored_count (h # hs) = stored_count [h] + stored_count hs"
  "failed_count (h # hs) = failed_count [h] + failed_count hs"
  by (simp_all add: stored_count_def failed_count_def)

lemma mappings_loop_exact:
  assumes "mappings_loop w sd skip domain ms (st, c) = (None, st2, c2)"
  shows "c2 = c + stored_count (handlings w sd skip domain ms st)
       \<and> n_errors st2 = n_errors st + failed_count (handlings w sd skip domain ms st)"
  using assms
proof (induction ms arbitrary: st c)
  case Nil
  then show ?case by (simp add: stored_count_def failed_count_def)
next
  case (Cons m ms)
  obtain r st1 c1 where p: "process_mapping w sd skip domain m (st, c) = (r, st1, c1)"
    by (cases "process_mapping w sd skip domain m (st, c)") auto
  show ?case
  proof (cases r)
    case None
    with p Cons.prems have l: "mappings_loop w sd skip domain ms (st1, c1) = (None, st2, c2)" by simp
    from process_mapping_state [of w sd skip domain m st c] p
    have s: "fst (snd (process_mapping w sd skip domain m (st, 0))) = st1" by simp
    from Cons.IH [OF l] process_mapping_exact [OF p [unfolded None]] s show ?thesis
      by (simp add: counts_cons [of _ "handlings w sd skip domain ms st1"])
  next
    case (Some e)
    with p Cons.prems show ?thesis by simp
  qed
qed

lemma process_domain_raised:
  assumes "process_domain w sd skip domain st = (Some e, st2)"
  shows "scraped_domains (database st2) = scraped_domains (database st)"
proof (cases "skip \<and> domain_scraped (database st) domain")
  case True
  with assms show ?thesis by (simp add: process_domain_def)
next
  case False
  then have ns: "(skip \<and> domain_scraped (database st) domain) = False" by simp
  from lookups_return(1) [of sd "\<lambda>a. w (calls st + a) (MappingReq domain)" domain]
  obtain store_mappings attempts where
    l: "get_store_ids_by_domain sd (\<lambda>a. w (calls st + a) (MappingReq domain)) domain
           = Inr (store_mappings, attempts)" by blast
  show ?thesis
  proof (cases "truthy store_mappings")
    case False
    with assms l show ?thesis by (simp add: process_domain_def ns Let_def)
  next
    case True
    show ?thesis
    proof (cases "py_iter store_mappings")
      case (Inl e2)
      with assms l True show ?thesis by (auto simp add: process_domain_def ns performed_def)
    next
      case (Inr mappings)
      obtain r st1 count where
        m: "mappings_loop w sd skip domain mappings (performed attempts st, 0) = (r, st1, count)"
        by (cases "mappings_loop w sd skip domain mappings (performed attempts st, 0)") auto
      from mappings_loop_markers [of w sd skip domain mappings "performed attempts st" 0] m
      have k: "scraped_domains (database st1) = scraped_domains (database st)"
        by (simp add: performed_def)
      from assms l True Inr m k show ?thesis
        by (cases r) (auto simp add: process_domain_def ns)
    qed
  qed
qed

lemma monitored_mapping_counts:
  assumes "monitored_mapping w sd skip domain m (st, c) = (None, st2, c2)"
  shows "c2 = c + 1"
  using assms unfolding monitored_mapping_def Let_def
  by (auto split: sum.splits bool.splits if_splits)

lemma monitored_mapping_markers:
  "scraped_domains (database (fst (snd (monitored_mapping w sd skip domain m (st, c)))))
     = scraped_domains (database st)"
  unfolding monitored_mapping_def Let_def
  by (simp add: performed_def save_keeps_markers split: sum.splits bool.splits)

lemma read_should_stop_facts:
  "database (snd (read_should_stop stop_req st)) = database st"
  "fst (read_should_stop stop_req st) \<Longrightarrow> should_stop (status (snd (read_should_stop stop_req st)))"
  "should_stop (status st) \<Longrightarrow> fst (read_should_stop stop_req st)"
  by (simp_all add: read_should_stop_def Let_def)

lemma monitored_mappings_loop_counts:
  assumes "monitored_mappings_loop w stop_req sd skip domain ms (st, c) = (None, st2, c2)"
  shows "(c2 = c + length ms \<or> (c2 < c + length ms \<and> should_stop (status st2)))
       \<and> scraped_domains (database st2) = scraped_domains (database st)"
  using assms
proof (induction ms arbitrary: st c)
  case Nil
  then show ?case by simp
next
  case (Cons m ms)
  obtain flag st1 where r: "read_should_stop stop_req st = (flag, st1)"
    by (cases "read_should_stop stop_req st") auto
  from read_should_stop_facts(1) [of stop_req st] r
  have d1: "database st1 = database st" by simp
  show ?case
  proof (cases flag)
    case True
    from read_should_stop_facts(2) [of stop_req st] r True
    have "should_stop (status st1)" by simp
    with r True Cons.prems d1 show ?thesis by auto
  next
    case False
    obtain e st3 c3 where p: "monitored_mapping w sd skip domain m (st1, c) = (e, st3, c3)"
      by (cases "monitored_mapping w sd skip domain m (st1, c)") auto
    from monitored_mapping_markers [of w sd skip domain m st1 c] p d1
    have d3: "scraped_domains (database st3) = scraped_domains (database st)" by simp
    show ?thesis
    proof (cases e)
      case None
      with r False p Cons.prems
      have l: "monitored_mappings_loop w stop_req sd skip domain ms (st3, c3) = (None, st2, c2)"
        by simp
      from monitored_mapping_counts [OF p [unfolded None]] have "c3 = c + 1" .
      with Cons.IH [OF l] d3 show ?thesis by auto
    next
      case (Some ex)
      with r False p Cons.prems show ?thesis by simp
    qed
  qed
qed

lemma monitored_domain_result:
  assumes "\<not> (skip \<and> domain_scraped (database m) domain)"
    and "get_store_ids_by_domain sd (\<lambda>a. w (calls m + a) (MappingReq domain)) domain
           = Inr (store_mappings, attempts)"
    and "monitored_domain w stop_req sd skip i domain m = (None, m2, stop)"
  shows "(\<not> truthy store_mappings \<longrightarrow> map_of (scraped_domains (database m2)) domain = Some 0)
       \<and> (\<forall>mappings. truthy store_mappings \<and> py_iter store_mappings = Inr mappings \<longrightarrow>
            (\<exists>count. map_of (scraped_domains (database m2)) domain = Some count
               \<and> (count = length mappings \<or> (count < length mappings \<and> stop))))"
proof -
  let ?st = "m\<lparr>status := (status m)\<lparr>current_domain := Some domain, domains_processed := i\<rparr>\<rparr>"
  from assms(1) have ns: "(skip \<and> domain_scraped (database m) domain) = False" by simp
  let ?res = "monitored_get_store_ids_by_domain sd (\<lambda>a. w (calls ?st + a) (MappingReq domain))
                domain (status ?st)"
  from assms(2) track_result_super_returns(1) [OF assms(2), of "PList []" "status ?st"]
  have f: "fst ?res = (store_mappings, attempts)"
    by (simp add: monitored_get_store_ids_by_domain_def)
  let ?st1 = "(performed attempts ?st)\<lparr>status := snd ?res\<rparr>"
  show ?thesis
  proof (cases "truthy store_mappings")
    case False
    with assms(3) f show ?thesis
      by (auto simp add: monitored_domain_def Let_def ns marker_written)
  next
    case True
    show ?thesis
    proof (cases "py_iter store_mappings")
      case (Inl e)
      with assms(3) f True show ?thesis by (simp add: monitored_domain_def Let_def ns)
    next
      case (Inr mappings)
      obtain e st2 count where l:
        "monitored_mappings_loop w stop_req sd skip domain mappings (?st1, 0) = (e, st2, count)"
        by (cases "monitored_mappings_loop w stop_req sd skip domain mappings (?st1, 0)") auto
      show ?thesis
      proof (cases e)
        case (Some ex)
        with assms(3) f True Inr l show ?thesis by (simp add: monitored_domain_def Let_def ns)
      next
        case None
        let ?st3 = "st2\<lparr>database := mark_domain_scraped (database st2) domain count\<rparr>"
        from assms(3) f True Inr l None
        have m2: "m2 = snd (read_should_stop stop_req ?st3)"
          and st: "stop = fst (read_should_stop stop_req ?st3)"
          by (simp_all add: monitored_domain_def Let_def ns)
        from read_should_stop_facts(1) [of stop_req ?st3] m2
        have mk: "map_of (scraped_domains (database m2)) domain = Some count"
          by (simp add: marker_written)
        from monitored_mappings_loop_counts [OF l [unfolded None]]
        have "count = length mappings \<or> (count < length mappings \<and> should_stop (status st2))"
          by simp
        moreover have "should_stop (status st2) \<Longrightarrow> stop"
          using read_should_stop_facts(3) [of ?st3 stop_req] st by simp
        ultimately have "count = length mappings \<or> (count < length mappings \<and> stop)" by blast
        with mk True Inr show ?thesis by simp
      qed
    qed
  qed
qed

lemma handlings_length: "length (handlings w sd skip domain ms st) = length ms"
  by (induction ms arbitrary: st) simp_all

lemma counts_total: "stored_count hs + failed_count hs = length hs"
  unfolding stored_count_def failed_count_def
  using sum_length_filter_compl [of "\<lambda>h. h \<noteq> FetchFailed" hs] by simp

text \<open>
  C5 as stated fails on \<open>HoneyScraper.scrape_all_stores\<close> in two ways. \<open>a.com\<close>
  resolves to one mapping, the mapping is handled and its detail fetch fails (all three
  attempts time out): the domain is marked with count 0, not 1. And a domain that is
  reached and not skipped is not marked at all when an exception escapes the handling
  of its mappings (here a mapping that is a string, not an object).
\<close>

theorem failed_fetch_not_counted:
  "get_store_ids_by_domain (1 / 2) (\<lambda>a. one_store_timeout_world (calls fresh_run + a)
       (MappingReq ''a.com'')) ''a.com''
     = Inr (PList [store_mapping ''S1'' ''a.com''], [[Sleep (1 / 2), Get (MappingReq ''a.com'')]])
   \<and> fst (process_domain one_store_timeout_world (1 / 2) True ''a.com'' fresh_run) = None
   \<and> scraped_domains (database (snd (process_domain one_store_timeout_world (1 / 2) True
         ''a.com'' fresh_run))) = [(''a.com'', 0)]
   \<and> n_errors (snd (process_domain one_store_timeout_world (1 / 2) True ''a.com'' fresh_run)) = 1
   \<and> calls (snd (process_domain one_store_timeout_world (1 / 2) True ''a.com'' fresh_run)) = 4
   \<and> domain_scraped (database fresh_run) ''a.com'' = False
   \<and> fst crashed_run = Some AttributeError
   \<and> scraped_domains (database (snd crashed_run)) = []"
  by code_simp

text \<open>
  C5, amended. A domain that is reached and not skipped and whose handling raises no
  exception is marked after the mapping stage, whatever the detail fetches did; a
  mapping result that is empty gives count 0. \<open>HoneyScraper.scrape_all_stores\<close>
  marks it with the number of mappings whose store was already present (resume mode) or
  whose detail fetch returned a record; every mapping whose fetch failed adds one to
  \<open>errors\<close> instead, and the two numbers add up to the number of mappings.
  \<open>MonitoredScraper.scrape_all_stores\<close> marks it with the number of mappings it
  handled, whether or not their fetches failed: all of them, unless the run was stopped
  inside the domain. When an exception escapes the handling, the base class leaves the
  markers as they were.
\<close>

theorem domain_marked_after_mappings:
  assumes "\<not> (skip_existing \<and> domain_scraped (database st) domain)"
    and "get_store_ids_by_domain self_delay (\<lambda>a. w (calls st + a) (MappingReq domain)) domain
           = Inr (store_mappings, attempts)"
    and "process_domain w self_delay skip_existing domain st = (raised, st2)"
    and "\<not> (skip_existing \<and> domain_scraped (database m) domain)"
    and "get_store_ids_by_domain self_delay (\<lambda>a. w (calls m + a) (MappingReq domain)) domain
           = Inr (store_mappings_m, attempts_m)"
    and "monitored_domain w stop_req self_delay skip_existing i domain m = (None, m2, stop)"
  shows "(raised = None \<and> \<not> truthy store_mappings \<longrightarrow>
            map_of (scraped_domains (database st2)) domain = Some 0)
       \<and> (\<forall>mappings. raised = None \<and> truthy store_mappings
              \<and> py_iter store_mappings = Inr mappings \<longrightarrow>
            map_of (scraped_domains (database st2)) domain
              = Some (stored_count (handlings w self_delay skip_existing domain mappings
                        (performed attempts st)))
            \<and> n_errors st2
              = n_errors st + failed_count (handlings w self_delay skip_existing domain mappings
                        (performed attempts st))
            \<and> stored_count (handlings w self_delay skip_existing domain mappings
                        (performed attempts st))
              + failed_count (handlings w self_delay skip_existing domain mappings
                        (performed attempts st)) = length mappings)
       \<and> (raised \<noteq> None \<longrightarrow> scraped_domains (database st2) = scraped_domains (database st))
       \<and> (\<not> truthy store_mappings_m \<longrightarrow>
            map_of (scraped_domains (database m2)) domain = Some 0)
       \<and> (\<forall>mappings. truthy store_mappings_m \<and> py_iter store_mappings_m = Inr mappings \<longrightarrow>
            (\<exists>count. map_of (scraped_domains (database m2)) domain = Some count
               \<and> (count = length mappings \<or> (count < length mappings \<and> stop))))"
proof -
  have base: "raised = None \<Longrightarrow>
       (\<not> truthy store_mappings \<longrightarrow> map_of (scraped_domains (database st2)) domain = Some 0)
       \<and> (\<forall>mappings. truthy store_mappings \<and> py_iter store_mappings = Inr mappings \<longrightarrow>
            map_of (scraped_domains (database st2)) domain
              = Some (stored_count (handlings w self_delay skip_existing domain mappings
                        (performed attempts st)))
            \<and> n_errors st2
              = n_errors st + failed_count (handlings w self_delay skip_existing domain mappings
                        (performed attempts st)))"
  proof -
    assume "raised = None"
    with assms(3) have p: "process_domain w self_delay skip_existing domain st = (None, st2)"
      by simp
    from process_domain_result [OF assms(1) assms(2) p]
    consider (none) "\<not> truthy store_mappings" "st2 = (performed attempts st)\<lparr>database :=
               mark_domain_scraped (database st) domain 0\<rparr>"
      | (some) mappings st1 count where "truthy store_mappings"
          "py_iter store_mappings = Inr mappings"
          "mappings_loop w self_delay skip_existing domain mappings (performed attempts st, 0)
             = (None, st1, count)"
          "st2 = st1\<lparr>database := mark_domain_scraped (database st1) domain count\<rparr>"
      by blast
    then show ?thesis
    proof cases
      case none
      then show ?thesis by (simp add: marker_written)
    next
      case some
      from mappings_loop_exact [OF some(3)] some(1,2,4) show ?thesis
        by (simp add: marker_written performed_def)
    qed
  qed
  have raised: "raised \<noteq> None \<longrightarrow> scraped_domains (database st2) = scraped_domains (database st)"
    using assms(3) process_domain_raised [of w self_delay skip_existing domain st _ st2] by auto
  note mon = monitored_domain_result [OF assms(4) assms(5) assms(6)]
  from base raised mon show ?thesis
    by (simp add: counts_total handlings_length)
qed

lemma mixed_run_facts:
  "\<not> (True \<and> domain_scraped (database stored_run) ''a.com'')"
  "get_store_ids_by_domain (1 / 2) (\<lambda>a. mixed_world (calls stored_run + a) (MappingReq ''a.com''))
     ''a.com''
   = Inr (PList [store_mapping ''S1'' ''a.com'', store_mapping ''S2'' ''a.com/x'',
                 store_mapping ''S3'' ''a.com/y''],
          [[Sleep (1 / 2), Get (MappingReq ''a.com'')]])"
  "process_domain mixed_world (1 / 2) True ''a.com'' stored_run
   = (None, snd (process_domain mixed_world (1 / 2) True ''a.com'' stored_run))"
  "\<not> (True \<and> domain_scraped (database stored_monitor) ''a.com'')"
  "get_store_ids_by_domain (1 / 2) (\<lambda>a. mixed_world (calls stored_monitor + a)
     (MappingReq ''a.com'')) ''a.com''
   = Inr (PList [store_mapping ''S1'' ''a.com'', store_mapping ''S2'' ''a.com/x'',
                 store_mapping ''S3'' ''a.com/y''],
          [[Sleep (1 / 2), Get (MappingReq ''a.com'')]])"
  "monitored_domain mixed_world never_stop (1 / 2) True 1 ''a.com'' stored_monitor
   = (None, fst (snd (monitored_domain mixed_world never_stop (1 / 2) True 1 ''a.com''
                        stored_monitor)), False)"
  by code_simp+

lemma mixed_run_values:
  "handlings mixed_world (1 / 2) True ''a.com''
     [store_mapping ''S1'' ''a.com'', store_mapping ''S2'' ''a.com/x'',
      store_mapping ''S3'' ''a.com/y'']
     (performed [[Sleep (1 / 2), Get (MappingReq ''a.com'')]] stored_run)
   = [AlreadyStored, FetchFailed, Fetched]"
  "map_of (scraped_domains (database (snd (process_domain mixed_world (1 / 2) True ''a.com''
     stored_run)))) ''a.com'' = Some 2"
  "n_errors (snd (process_domain mixed_world (1 / 2) True ''a.com'' stored_run)) = 1"
  "map_of (scraped_domains (database (fst (snd (monitored_domain mixed_world never_stop (1 / 2)
     True 1 ''a.com'' stored_monitor))))) ''a.com'' = Some 3"
  by code_simp+

theorem domain_marked_after_mappings_witness:
  "handlings mixed_world (1 / 2) True ''a.com''
     [store_mapping ''S1'' ''a.com'', store_mapping ''S2'' ''a.com/x'',
      store_mapping ''S3'' ''a.com/y'']
     (performed [[Sleep (1 / 2), Get (MappingReq ''a.com'')]] stored_run)
   = [AlreadyStored, FetchFailed, Fetched]
   \<and> map_of (scraped_domains (database (snd (process_domain mixed_world (1 / 2) True ''a.com''
        stored_run)))) ''a.com'' = Some 2
   \<and> n_errors (snd (process_domain mixed_world (1 / 2) True ''a.com'' stored_run)) = 1
   \<and> map_of (scraped_domains (database (fst (snd (monitored_domain mixed_world never_stop (1 / 2)
        True 1 ''a.com'' stored_monitor))))) ''a.com'' = Some 3"
  using domain_marked_after_mappings [where w = mixed_world and st = stored_run
      and m = stored_monitor and stop_req = never_stop and i = 1,
      OF mixed_run_facts(1) mixed_run_facts(2) mixed_run_facts(3) mixed_run_facts(4)
         mixed_run_facts(5) mixed_run_facts(6)]
    mixed_run_values
  by simp





section \<open>A base delay of zero is inert for the whole run\<close>

lemma quiet_append: "quiet (xs @ ys) \<longleftrightarrow> quiet xs \<and> quiet ys"
  by (auto simp add: quiet_def sleeps_def)

lemma quiet_concat: "quiet (concat attempts) \<longleftrightarrow> set (sleeps attempts) \<subseteq> {0}"
  by (simp add: quiet_def sleeps_def)

lemma track_result_quiet:
  assumes "super = Inr (v, attempts)" "set (sleeps attempts) \<subseteq> {0}"
  shows "quiet (concat (snd (fst (track_result miss super ss))))"
  using assms by (simp add: track_result_def quiet_concat)

lemma monitored_details_quiet:
  "quiet (concat (snd (fst (monitored_get_store_details 0 net store_id mu sc ss))))"
proof -
  from lookups_return(2) [of 0 net store_id mu sc] obtain v attempts
    where r: "get_store_details 0 net store_id mu sc = Inr (v, attempts)" by blast
  then have "set (sleeps attempts) \<subseteq> {0}"
    unfolding get_store_details_def by (rule lookup_zero_sleeps)
  from track_result_quiet [OF r this] show ?thesis
    by (simp add: monitored_get_store_details_def)
qed

lemma monitored_ids_quiet:
  "quiet (concat (snd (fst (monitored_get_store_ids_by_domain 0 net domain ss))))"
proof -
  from lookups_return(1) [of 0 net domain] obtain v attempts
    where r: "get_store_ids_by_domain 0 net domain = Inr (v, attempts)" by blast
  then have "set (sleeps attempts) \<subseteq> {0}"
    unfolding get_store_ids_by_domain_def by (rule lookup_zero_sleeps)
  from track_result_quiet [OF r this] show ?thesis
    by (simp add: monitored_get_store_ids_by_domain_def)
qed

lemma monitored_mapping_quiet:
  assumes "quiet (events st)"
  shows "quiet (events (fst (snd (monitored_mapping w 0 skip domain m (st, c)))))"
  using assms monitored_details_quiet
  unfolding monitored_mapping_def Let_def
  by (simp add: performed_def quiet_append split: sum.splits bool.splits)

lemma read_should_stop_events: "events (snd (read_should_stop stop_req st)) = events st"
  by (simp add: read_should_stop_def Let_def)

lemma monitored_mappings_loop_quiet:
  assumes "quiet (events st)"
  shows "quiet (events (fst (snd (monitored_mappings_loop w stop_req 0 skip domain ms (st, c)))))"
  using assms
proof (induction ms arbitrary: st c)
  case Nil
  then show ?case by simp
next
  case (Cons m ms)
  obtain flag st1 where r: "read_should_stop stop_req st = (flag, st1)"
    by (cases "read_should_stop stop_req st") auto
  with read_should_stop_events [of stop_req st] Cons.prems have q1: "quiet (events st1)" by simp
  show ?case
  proof (cases flag)
    case True
    with r q1 show ?thesis by simp
  next
    case False
    obtain e st2 c2 where p: "monitored_mapping w 0 skip domain m (st1, c) = (e, st2, c2)"
      by (cases "monitored_mapping w 0 skip domain m (st1, c)") auto
    from monitored_mapping_quiet [OF q1, of w skip domain m c] p have q2: "quiet (events st2)"
      by simp
    from r False p q2 Cons.IH [OF q2, of c2] show ?thesis by (cases e) simp_all
  qed
qed

lemma monitored_domain_quiet:
  assumes "quiet (events st)"
  shows "quiet (events (fst (snd (monitored_domain w stop_req 0 skip i domain st))))"
proof -
  let ?st = "st\<lparr>status := (status st)\<lparr>current_domain := Some domain, domains_processed := i\<rparr>\<rparr>"
  let ?res = "monitored_get_store_ids_by_domain 0 (\<lambda>a. w (calls ?st + a) (MappingReq domain))
                domain (status ?st)"
  let ?st1 = "(performed (snd (fst ?res)) ?st)\<lparr>status := snd ?res\<rparr>"
  have q1: "quiet (events ?st1)"
    using assms monitored_ids_quiet [of "\<lambda>a. w (calls ?st + a) (MappingReq domain)" domain "status ?st"]
    by (simp add: performed_def quiet_append)
  show ?thesis
  proof (cases "skip \<and> domain_scraped (database st) domain")
    case True
    with assms show ?thesis by (simp add: monitored_domain_def Let_def)
  next
    case False
    then have ns: "(skip \<and> domain_scraped (database st) domain) = False" by simp
    show ?thesis
    proof (cases "truthy (fst (fst ?res))")
      case nt: False
      with q1 show ?thesis by (simp add: monitored_domain_def Let_def ns)
    next
      case tr: True
      show ?thesis
      proof (cases "py_iter (fst (fst ?res))")
        case (Inl e)
        with q1 tr show ?thesis by (simp add: monitored_domain_def Let_def ns)
      next
        case (Inr mappings)
        obtain e st2 c2 where l:
          "monitored_mappings_loop w stop_req 0 skip domain mappings (?st1, 0) = (e, st2, c2)"
          by (cases "monitored_mappings_loop w stop_req 0 skip domain mappings (?st1, 0)") auto
        from monitored_mappings_loop_quiet [OF q1, of w stop_req skip domain mappings 0] l
        have q2: "quiet (events st2)" by simp
        from tr Inr l q2 show ?thesis
          by (cases e) (simp_all add: monitored_domain_def Let_def ns read_should_stop_events)
      qed
    qed
  qed
qed

lemma monitored_domains_loop_quiet:
  assumes "quiet (events st)"
  shows "quiet (events (snd (monitored_domains_loop w stop_req 0 skip i ds st)))"
  using assms
proof (induction ds arbitrary: st i)
  case Nil
  then show ?case by simp
next
  case (Cons d ds)
  obtain flag st1 where r: "read_should_stop stop_req st = (flag, st1)"
    by (cases "read_should_stop stop_req st") auto
  with read_should_stop_events [of stop_req st] Cons.prems have q1: "quiet (events st1)" by simp
  show ?case
  proof (cases flag)
    case True
    with r q1 show ?thesis by simp
  next
    case False
    obtain e st2 stop where p: "monitored_domain w stop_req 0 skip i d st1 = (e, st2, stop)"
      by (cases "monitored_domain w stop_req 0 skip i d st1") auto
    from monitored_domain_quiet [OF q1, of w stop_req skip i d] p have q2: "quiet (events st2)"
      by simp
    from r False p q2 Cons.IH [OF q2, of "i + 1"] show ?thesis
      by (cases e; cases stop) simp_all
  qed
qed

lemma monitored_run_quiet:
  assumes "quiet (events st)"
  shows "quiet (events (snd (monitored_scrape_all_stores w stop_req 0 supported max_domains skip st)))"
proof -
  let ?ds = "limit_domains max_domains supported"
  let ?st0 = "(enter_run st)\<lparr>n_processed := 0, n_skipped := 0, n_errors := 0,
                    status := (status (enter_run st))\<lparr>total_domains := length ?ds\<rparr>\<rparr>"
  have q0: "quiet (events ?st0)" using assms by (simp add: enter_run_def)
  from monitored_domains_loop_quiet [OF q0, of w stop_req skip 1 ?ds]
  have "quiet (events (snd (monitored_try_body w stop_req 0 supported max_domains skip (enter_run st))))"
    using assms by (simp add: monitored_try_body_def Let_def enter_run_def)
  then show ?thesis
    by (auto simp add: monitored_scrape_all_stores_def finally_clause_def split: prod.splits)
qed

text \<open>
  C9. The delay setter accepts exactly 0 (status 200, the delay stored in the state and
  in the running instance). With base delay 0, whatever the transport does, both
  lookups return and every sleep they perform, before a request and after a 429 or a
  transient error, lasts 0; and a monitored run with base delay 0 only adds sleeps of 0
  to the trace, whatever the transport, the stop requests and the domain list: neither
  pacing nor backoff delays anything during the whole run.
\<close>

theorem zero_delay_is_inert:
  "api_scraper_delay (Inr 0) (ss, inst) = (200, ss\<lparr>delay := 0\<rparr>, map_option (\<lambda>old. 0) inst)
   \<and> (\<exists>v attempts. get_store_ids_by_domain 0 net domain = Inr (v, attempts)
         \<and> set (sleeps attempts) \<subseteq> {0})
   \<and> (\<exists>v attempts. get_store_details 0 net2 store_id max_ugc success_count = Inr (v, attempts)
         \<and> set (sleeps attempts) \<subseteq> {0})
   \<and> (quiet (events st) \<longrightarrow>
        quiet (events (snd (monitored_scrape_all_stores w stop_req 0 supported max_domains
          skip_existing st))))"
proof -
  have s: "api_scraper_delay (Inr 0) (ss, inst)
      = (200, ss\<lparr>delay := 0\<rparr>, map_option (\<lambda>old. 0) inst)"
    by (simp add: api_scraper_delay_def)
  from lookups_return(1) [of 0 net domain]
  obtain v attempts where m: "get_store_ids_by_domain 0 net domain = Inr (v, attempts)"
    by blast
  then have mz: "set (sleeps attempts) \<subseteq> {0}"
    unfolding get_store_ids_by_domain_def by (rule lookup_zero_sleeps)
  from lookups_return(2) [of 0 net2 store_id max_ugc success_count]
  obtain v2 attempts2 where d: "get_store_details 0 net2 store_id max_ugc success_count
      = Inr (v2, attempts2)"
    by blast
  then have dz: "set (sleeps attempts2) \<subseteq> {0}"
    unfolding get_store_details_def by (rule lookup_zero_sleeps)
  have r: "quiet (events st) \<longrightarrow>
        quiet (events (snd (monitored_scrape_all_stores w stop_req 0 supported max_domains
          skip_existing st)))"
    using monitored_run_quiet [of st w stop_req supported max_domains skip_existing] by blast
  from s m mz d dz r show ?thesis by blast
qed

lemma zero_monitored_run:
  "quiet (events fresh_monitor)"
  "events (snd (monitored_scrape_all_stores failing_world never_stop 0 [''b.com''] None True
      fresh_monitor))
   = [Sleep 0, Get (MappingReq ''b.com''), Sleep 0,
      Sleep 0, Get (MappingReq ''b.com''), Sleep 0,
      Sleep 0, Get (MappingReq ''b.com'')]"
  by code_simp+

theorem zero_delay_is_inert_witness:
  "api_scraper_delay (Inr 0) (idle_state, Some (1 / 2)) = (200, idle_state\<lparr>delay := 0\<rparr>, Some 0)
   \<and> get_store_ids_by_domain 0 rate_limit_then_timeouts ''a.com''
     = Inr (PList [], [[Sleep 0, Get (MappingReq ''a.com''), Sleep 0],
                       [Sleep 0, Get (MappingReq ''a.com''), Sleep 0],
                       [Sleep 0, Get (MappingReq ''a.com'')]])
   \<and> set (sleeps [[Sleep 0, Get (MappingReq ''a.com''), Sleep 0],
                       [Sleep 0, Get (MappingReq ''a.com''), Sleep 0],
                       [Sleep 0, Get (MappingReq ''a.com'')]]) \<subseteq> {0}
   \<and> quiet (events fresh_monitor)
   \<and> quiet [Sleep 0, Get (MappingReq ''b.com''), Sleep 0,
        Sleep 0, Get (MappingReq ''b.com''), Sleep 0,
        Sleep 0, Get (MappingReq ''b.com'')]"
  using zero_delay_is_inert [of idle_state "Some (1 / 2)" rate_limit_then_timeouts "''a.com''"
      rate_limit_then_timeouts PNone 3 1 fresh_monitor failing_world never_stop "[''b.com'']"
      None True] zero_run zero_monitored_run
  by auto

end
